theory Spec2Isabelle
  imports Complex_Main
begin

section \<open>Vectors\<close>

text \<open>
  Modelled from the spec: \<open>Vector3\<close> (math/Vector3.js) is not among the source files; the
  spec lists it as a basic 3D vector primitive (distance, squared distance, normalize,
  value equality). Coordinates are idealised as real numbers; the source computes on
  IEEE doubles, so NaN and rounding are outside this model.
\<close>

datatype vec3 = Vector3 (vx: real) (vy: real) (vz: real)

definition equals :: "vec3 \<Rightarrow> vec3 \<Rightarrow> bool" where
  "equals a b = (vx a = vx b \<and> vy a = vy b \<and> vz a = vz b)"

definition squaredDistanceTo :: "vec3 \<Rightarrow> vec3 \<Rightarrow> real" where
  "squaredDistanceTo a b =
     (let dx = vx a - vx b; dy = vy a - vy b; dz = vz a - vz b
      in dx * dx + dy * dy + dz * dz)"

definition distanceTo :: "vec3 \<Rightarrow> vec3 \<Rightarrow> real" where
  "distanceTo a b = sqrt (squaredDistanceTo a b)"

definition subVectors :: "vec3 \<Rightarrow> vec3 \<Rightarrow> vec3" where
  "subVectors a b = Vector3 (vx a - vx b) (vy a - vy b) (vz a - vz b)"

definition add :: "vec3 \<Rightarrow> vec3 \<Rightarrow> vec3" where
  "add a b = Vector3 (vx a + vx b) (vy a + vy b) (vz a + vz b)"

definition multiplyScalar :: "vec3 \<Rightarrow> real \<Rightarrow> vec3" where
  "multiplyScalar a k = Vector3 (vx a * k) (vy a * k) (vz a * k)"

definition divideScalar :: "vec3 \<Rightarrow> real \<Rightarrow> vec3" where
  "divideScalar a k = Vector3 (vx a / k) (vy a / k) (vz a / k)"

definition dot :: "vec3 \<Rightarrow> vec3 \<Rightarrow> real" where
  "dot a b = vx a * vx b + vy a * vy b + vz a * vz b"

definition vlength :: "vec3 \<Rightarrow> real" where
  "vlength a = sqrt (dot a a)"

definition normalize :: "vec3 \<Rightarrow> vec3" where
  "normalize a = divideScalar a (if vlength a = 0 then 1 else vlength a)"

section \<open>The half-edge heap\<close>

text \<open>
  Half-edges and polygons are heap objects linked by references. The heap is an arena:
  a handle is a natural number, \<open>twin\<close> is the only reference that may be null. The
  references \<open>next\<close>, \<open>prev\<close> and \<open>polygon\<close> are handles that always point somewhere
  (the input is a wired half-edge mesh). \<open>from()\<close> is the edge's own vertex and \<open>to()\<close>
  the vertex of its successor.
\<close>

record halfedge =
  vertex :: vec3
  "next" :: nat
  prev :: nat
  twin :: "nat option"
  polygon :: nat
  nodeIndex :: int

record Polygon =
  edge :: nat
  centroid :: vec3

type_synonym heap = "nat \<Rightarrow> halfedge"

definition from_v :: "heap \<Rightarrow> nat \<Rightarrow> vec3" where
  "from_v h e = vertex (h e)"

definition to_v :: "heap \<Rightarrow> nat \<Rightarrow> vec3" where
  "to_v h e = vertex (h (next (h e)))"

definition squaredLength :: "heap \<Rightarrow> nat \<Rightarrow> real" where
  "squaredLength h e = squaredDistanceTo (from_v h e) (to_v h e)"

definition set_next :: "nat \<Rightarrow> nat \<Rightarrow> heap \<Rightarrow> heap" where
  "set_next e v h = h(e := (h e)\<lparr>next := v\<rparr>)"

definition set_prev :: "nat \<Rightarrow> nat \<Rightarrow> heap \<Rightarrow> heap" where
  "set_prev e v h = h(e := (h e)\<lparr>prev := v\<rparr>)"

definition set_twin :: "nat \<Rightarrow> nat \<Rightarrow> heap \<Rightarrow> heap" where
  "set_twin e v h = h(e := (h e)\<lparr>twin := Some v\<rparr>)"

definition set_polygon :: "nat \<Rightarrow> nat \<Rightarrow> heap \<Rightarrow> heap" where
  "set_polygon e v h = h(e := (h e)\<lparr>polygon := v\<rparr>)"

definition set_nodeIndex :: "nat \<Rightarrow> int \<Rightarrow> heap \<Rightarrow> heap" where
  "set_nodeIndex e v h = h(e := (h e)\<lparr>nodeIndex := v\<rparr>)"

text \<open>
  The boundary walk \<open>do { ...; edge = edge.next } while (edge !== start)\<close>: the edges
  visited, in order. A walk that never comes back to \<open>start\<close> does not return: \<open>None\<close>.
  Every such loop of the source leaves \<open>next\<close> untouched in its body, so the edges it
  visits are those collected here before the body runs over them.
\<close>

partial_function (option) walk :: "(nat \<Rightarrow> nat) \<Rightarrow> nat \<Rightarrow> nat \<Rightarrow> nat list option" where
  "walk nxt start e =
     (if nxt e = start then Some [e]
      else Option.bind (walk nxt start (nxt e)) (\<lambda>r. Some (e # r)))"

declare walk.simps [code]

definition cycle :: "heap \<Rightarrow> nat \<Rightarrow> nat list option" where
  "cycle h start = walk (\<lambda>e. next (h e)) start start"

section \<open>Polygon\<close>

text \<open>
  Modelled from the spec: \<open>Polygon.convex\<close> and \<open>Polygon.computeCentroid\<close> are not among
  the source files. The spec: the convexity test "must hold for every edge triple in the
  candidate cycle", and the centroid is the "mean of vertex positions". The test on one
  triple is a parameter \<open>leftOn\<close>; the walk stops at the first triple that fails.
\<close>

partial_function (option) convex_loop ::
  "(vec3 \<Rightarrow> vec3 \<Rightarrow> vec3 \<Rightarrow> bool) \<Rightarrow> heap \<Rightarrow> nat \<Rightarrow> nat \<Rightarrow> bool option" where
  "convex_loop leftOn h start e =
     (if \<not> leftOn (from_v h e) (to_v h e) (to_v h (next (h e))) then Some False
      else if next (h e) = start then Some True
      else convex_loop leftOn h start (next (h e)))"

declare convex_loop.simps [code]

definition convex :: "(vec3 \<Rightarrow> vec3 \<Rightarrow> vec3 \<Rightarrow> bool) \<Rightarrow> heap \<Rightarrow> Polygon \<Rightarrow> bool option" where
  "convex leftOn h p = convex_loop leftOn h (edge p) (edge p)"

definition mean :: "vec3 list \<Rightarrow> vec3" where
  "mean vs = divideScalar (foldl add (Vector3 0 0 0) vs) (real (length vs))"

definition computeCentroid :: "heap \<Rightarrow> Polygon \<Rightarrow> Polygon option" where
  "computeCentroid h p =
     (case cycle h (edge p) of
        None \<Rightarrow> None
      | Some es \<Rightarrow> Some (p\<lparr>centroid := mean (map (from_v h) es)\<rparr>))"

section \<open>Graph\<close>

text \<open>
  Modelled from the spec: \<open>Graph\<close>, \<open>NavNode\<close> and \<open>NavEdge\<close> (graph/core, graph/navigation)
  are not among the source files. The spec's contract: \<open>addNode\<close>, \<open>hasNode\<close>,
  \<open>getNode\<close> (a node or none), \<open>addEdge\<close>, \<open>hasEdge\<close>, and "if not digraph, inserting an
  edge implicitly inserts its reverse".
\<close>

record NavNode =
  index :: int
  position :: vec3

record NavEdge =
  e_from :: int
  e_to :: int
  cost :: real

record Graph =
  digraph :: bool
  g_nodes :: "NavNode list"
  g_edges :: "NavEdge list"

definition getNode :: "Graph \<Rightarrow> int \<Rightarrow> NavNode option" where
  "getNode g i = find (\<lambda>n. index n = i) (g_nodes g)"

definition hasNode :: "Graph \<Rightarrow> int \<Rightarrow> bool" where
  "hasNode g i = (getNode g i \<noteq> None)"

definition addNode :: "Graph \<Rightarrow> NavNode \<Rightarrow> Graph" where
  "addNode g n = g\<lparr>g_nodes := g_nodes g @ [n]\<rparr>"

definition hasEdge :: "Graph \<Rightarrow> int \<Rightarrow> int \<Rightarrow> bool" where
  "hasEdge g f t = list_ex (\<lambda>e. e_from e = f \<and> e_to e = t) (g_edges g)"

definition addEdge :: "Graph \<Rightarrow> NavEdge \<Rightarrow> Graph" where
  "addEdge g e =
     (if digraph g then g\<lparr>g_edges := g_edges g @ [e]\<rparr>
      else g\<lparr>g_edges := g_edges g @ [e, \<lparr>e_from = e_to e, e_to = e_from e, cost = cost e\<rparr>]\<rparr>)"

definition graph_clear :: "Graph \<Rightarrow> Graph" where
  "graph_clear g = g\<lparr>g_nodes := [], g_edges := []\<rparr>"

section \<open>NavMesh state\<close>

text \<open>
  The state a NavMesh method reads and writes: the heap of half-edges and polygons its
  regions point into, the region set (a JavaScript \<open>Set\<close>: insertion order, no
  duplicates) and the navigation graph.
\<close>

record navmesh =
  halfedges :: heap
  polys :: "nat \<Rightarrow> Polygon"
  regions :: "nat list"
  navgraph :: Graph

datatype error = TypeError | NoCurrentRegion

definition constructor :: "heap \<Rightarrow> (nat \<Rightarrow> Polygon) \<Rightarrow> navmesh" where
  "constructor h ps =
     \<lparr>halfedges = h, polys = ps, regions = [],
      navgraph = \<lparr>digraph = True, g_nodes = [], g_edges = []\<rparr>\<rparr>"

definition clear :: "navmesh \<Rightarrow> navmesh" where
  "clear s = s\<lparr>navgraph := graph_clear (navgraph s), regions := []\<rparr>"

definition set_add :: "nat \<Rightarrow> nat list \<Rightarrow> nat list" where
  "set_add r rs = (if r \<in> set rs then rs else rs @ [r])"

definition set_delete :: "nat \<Rightarrow> nat list \<Rightarrow> nat list" where
  "set_delete r rs = removeAll r rs"

section \<open>Building the mesh\<close>

subsection \<open>Edge list and twin discovery\<close>

text \<open>
  The first loop of \<open>fromPolygons\<close>: walk every polygon's boundary, push its edges on
  \<open>initialEdgeList\<close> and add the polygon to the region set.
\<close>

fun setup_edges ::
  "heap \<Rightarrow> (nat \<Rightarrow> Polygon) \<Rightarrow> nat list \<Rightarrow> nat list \<Rightarrow> nat list \<Rightarrow> (nat list \<times> nat list) option" where
  "setup_edges h ps [] acc rs = Some (acc, rs)"
| "setup_edges h ps (p # rest) acc rs =
     (case cycle h (edge (ps p)) of
        None \<Rightarrow> None
      | Some es \<Rightarrow> setup_edges h ps rest (acc @ es) (set_add p rs))"

definition is_twin_of :: "heap \<Rightarrow> nat \<Rightarrow> nat \<Rightarrow> bool" where
  "is_twin_of h edge0 edge1 =
     (equals (from_v h edge0) (to_v h edge1) \<and> equals (to_v h edge0) (from_v h edge1))"

text \<open>
  One round of the outer twin loop for \<open>edge0\<close>: skip an edge that has a twin, else take
  the first \<open>edge1\<close> of the list with reversed end points, link both and record the pair.
\<close>

definition link_twin ::
  "nat list \<Rightarrow> heap \<times> (real \<times> nat) list \<Rightarrow> nat \<Rightarrow> heap \<times> (real \<times> nat) list" where
  "link_twin initialEdgeList hw edge0 =
     (let (h, sortedEdgeList) = hw in
      if twin (h edge0) \<noteq> None then (h, sortedEdgeList)
      else (case find (is_twin_of h edge0) initialEdgeList of
              None \<Rightarrow> (h, sortedEdgeList)
            | Some edge1 \<Rightarrow>
                (let h' = set_twin edge1 edge0 (set_twin edge0 edge1 h)
                 in (h', sortedEdgeList @ [(squaredLength h' edge0, edge0)]))))"

definition link_twins :: "heap \<Rightarrow> nat list \<Rightarrow> heap \<times> (real \<times> nat) list" where
  "link_twins h initialEdgeList = foldl (link_twin initialEdgeList) (h, []) initialEdgeList"

text \<open>
  \<open>sortedEdgeList.sort(descending)\<close>: the comparator of the source, and the sort as a
  stable insertion sort (entries that compare equal keep their order).
\<close>

definition descending :: "real \<times> nat \<Rightarrow> real \<times> nat \<Rightarrow> int" where
  "descending a b = (if fst a < fst b then 1 else if fst a > fst b then - 1 else 0)"

fun insert_by :: "('a \<Rightarrow> 'a \<Rightarrow> int) \<Rightarrow> 'a \<Rightarrow> 'a list \<Rightarrow> 'a list" where
  "insert_by cmp a [] = [a]"
| "insert_by cmp a (b # bs) = (if cmp a b \<le> 0 then a # b # bs else b # insert_by cmp a bs)"

definition sort_by :: "('a \<Rightarrow> 'a \<Rightarrow> int) \<Rightarrow> 'a list \<Rightarrow> 'a list" where
  "sort_by cmp xs = foldr (insert_by cmp) xs []"

subsection \<open>Region merge\<close>

text \<open>
  One round of the loop of \<open>_buildRegions\<close> for the candidate edge of an entry. The four
  assignments of the splice read the heap as the assignments before them left it. A
  candidate without a twin raises a TypeError at \<open>candidate.twin.prev\<close>.
\<close>

definition splice :: "heap \<Rightarrow> nat \<Rightarrow> nat \<Rightarrow> heap" where
  "splice h candidate t =
     (let h1 = set_next (prev (h candidate)) (next (h t)) h;
          h2 = set_prev (next (h1 candidate)) (prev (h1 t)) h1;
          h3 = set_next (prev (h2 t)) (next (h2 candidate)) h2;
          h4 = set_prev (next (h3 t)) (prev (h3 candidate)) h3
      in h4)"

definition restore :: "heap \<Rightarrow> nat \<Rightarrow> nat \<Rightarrow> nat \<Rightarrow> nat \<Rightarrow> nat \<Rightarrow> nat \<Rightarrow> heap" where
  "restore h candidate t cache_prev cache_next cache_prevTwin cache_nextTwin =
     (let r1 = set_next cache_prev candidate h;
          r2 = set_prev cache_next candidate r1;
          r3 = set_next cache_prevTwin t r2;
          r4 = set_prev cache_nextTwin t r3
      in r4)"

definition merge_candidate ::
  "(vec3 \<Rightarrow> vec3 \<Rightarrow> vec3 \<Rightarrow> bool) \<Rightarrow> navmesh \<Rightarrow> nat \<Rightarrow> (error + navmesh) option" where
  "merge_candidate leftOn s candidate =
     (let h = halfedges s in
      case twin (h candidate) of
        None \<Rightarrow> Some (Inl TypeError)
      | Some t \<Rightarrow>
         (let cache_prev = prev (h candidate);
              cache_next = next (h candidate);
              cache_prevTwin = prev (h t);
              cache_nextTwin = next (h t);
              h4 = splice h candidate t;
              pg = polygon (h4 candidate);
              ps1 = (polys s)(pg := (polys s pg)\<lparr>edge := prev (h4 candidate)\<rparr>)
          in case convex leftOn h4 (ps1 pg) of
               None \<Rightarrow> None
             | Some True \<Rightarrow>
                 (case cycle h4 (edge (ps1 pg)) of
                    None \<Rightarrow> None
                  | Some es \<Rightarrow>
                     (let h5 = foldl (\<lambda>hh e. set_polygon e pg hh) h4 es
                      in Some (Inr (s\<lparr>halfedges := h5, polys := ps1,
                                       regions := set_delete (polygon (h5 t)) (regions s)\<rparr>))))
             | Some False \<Rightarrow>
                 (let r4 = restore h4 candidate t cache_prev cache_next cache_prevTwin cache_nextTwin
                  in Some (Inr (s\<lparr>halfedges := r4,
                                   polys := ps1(pg := (ps1 pg)\<lparr>edge := candidate\<rparr>)\<rparr>)))))"

fun merge_all ::
  "(vec3 \<Rightarrow> vec3 \<Rightarrow> vec3 \<Rightarrow> bool) \<Rightarrow> navmesh \<Rightarrow> (real \<times> nat) list \<Rightarrow> (error + navmesh) option" where
  "merge_all leftOn s [] = Some (Inr s)"
| "merge_all leftOn s (entry # rest) =
     (case merge_candidate leftOn s (snd entry) of
        None \<Rightarrow> None
      | Some (Inl err) \<Rightarrow> Some (Inl err)
      | Some (Inr s') \<Rightarrow> merge_all leftOn s' rest)"

fun centroids :: "navmesh \<Rightarrow> nat list \<Rightarrow> navmesh option" where
  "centroids s [] = Some s"
| "centroids s (r # rs) =
     (case computeCentroid (halfedges s) (polys s r) of
        None \<Rightarrow> None
      | Some p \<Rightarrow> centroids (s\<lparr>polys := (polys s)(r := p)\<rparr>) rs)"

definition buildRegions ::
  "(vec3 \<Rightarrow> vec3 \<Rightarrow> vec3 \<Rightarrow> bool) \<Rightarrow> navmesh \<Rightarrow> (real \<times> nat) list \<Rightarrow> (error + navmesh) option" where
  "buildRegions leftOn s edgeList =
     (case merge_all leftOn s edgeList of
        None \<Rightarrow> None
      | Some (Inl err) \<Rightarrow> Some (Inl err)
      | Some (Inr s') \<Rightarrow> map_option Inr (centroids s' (regions s')))"

subsection \<open>Node indices\<close>

text \<open>
  \<open>indicesMap\<close> is a JavaScript \<open>Map\<close> from index to position, scanned in insertion
  order; \<open>- 1\<close> stands for "no index found".
\<close>

definition lookup_index :: "(int \<times> vec3) list \<Rightarrow> vec3 \<Rightarrow> int" where
  "lookup_index indicesMap p =
     (case find (\<lambda>ip. equals p (snd ip)) indicesMap of None \<Rightarrow> - 1 | Some ip \<Rightarrow> fst ip)"

definition index_edge ::
  "heap \<times> (int \<times> vec3) list \<times> int \<Rightarrow> nat \<Rightarrow> heap \<times> (int \<times> vec3) list \<times> int" where
  "index_edge st e =
     (let (h, indicesMap, nextNodeIndex) = st in
      case twin (h e) of
        None \<Rightarrow> st
      | Some t \<Rightarrow>
         (let p = from_v h e;
              found = lookup_index indicesMap p;
              ni = (if found = - 1 then nextNodeIndex else found);
              indicesMap' = (if found = - 1 then indicesMap @ [(nextNodeIndex, p)] else indicesMap);
              nextNodeIndex' = (if found = - 1 then nextNodeIndex + 1 else nextNodeIndex);
              h1 = set_nodeIndex e ni h;
              h2 = set_nodeIndex (next (h1 t)) ni h1
          in (h2, indicesMap', nextNodeIndex')))"

fun index_regions ::
  "(nat \<Rightarrow> Polygon) \<Rightarrow> heap \<times> (int \<times> vec3) list \<times> int \<Rightarrow> nat list
     \<Rightarrow> (heap \<times> (int \<times> vec3) list \<times> int) option" where
  "index_regions ps st [] = Some st"
| "index_regions ps st (r # rs) =
     (case cycle (fst st) (edge (ps r)) of
        None \<Rightarrow> None
      | Some es \<Rightarrow> index_regions ps (foldl index_edge st es) rs)"

definition buildNodeIndices :: "navmesh \<Rightarrow> navmesh option" where
  "buildNodeIndices s =
     map_option (\<lambda>st. s\<lparr>halfedges := fst st\<rparr>)
       (index_regions (polys s) (halfedges s, [], 0) (regions s))"

subsection \<open>Navigation graph\<close>

definition gather_edge :: "heap \<Rightarrow> int list \<times> Graph \<Rightarrow> nat \<Rightarrow> int list \<times> Graph" where
  "gather_edge h ig e =
     (let (nodeIndices, g) = ig in
      case twin (h e) of
        None \<Rightarrow> ig
      | Some t \<Rightarrow>
         (nodeIndices @ [nodeIndex (h e), nodeIndex (h t)],
          if hasNode g (nodeIndex (h e)) then g
          else addNode g \<lparr>index = nodeIndex (h e), position = from_v h e\<rparr>))"

fun gather_regions ::
  "heap \<Rightarrow> (nat \<Rightarrow> Polygon) \<Rightarrow> int list list \<times> Graph \<Rightarrow> nat list \<Rightarrow> (int list list \<times> Graph) option" where
  "gather_regions h ps acc [] = Some acc"
| "gather_regions h ps acc (r # rs) =
     (case cycle h (edge (ps r)) of
        None \<Rightarrow> None
      | Some es \<Rightarrow>
         (let (nodeIndices, g) = foldl (gather_edge h) ([], snd acc) es
          in gather_regions h ps (fst acc @ [nodeIndices], g) rs))"

text \<open>
  The body of the innermost loop: \<open>graph.getNode\<close> yields none for an index without a
  node, and reading \<open>.position\<close> of it raises a TypeError.
\<close>

definition connect :: "Graph \<Rightarrow> int \<Rightarrow> int \<Rightarrow> error + Graph" where
  "connect g f t =
     (if f \<noteq> t \<and> \<not> hasEdge g f t then
        (case getNode g f of
           None \<Rightarrow> Inl TypeError
         | Some nodeFrom \<Rightarrow>
            (case getNode g t of
               None \<Rightarrow> Inl TypeError
             | Some nodeTo \<Rightarrow>
                 Inr (addEdge g \<lparr>e_from = f, e_to = t,
                                 cost = distanceTo (position nodeFrom) (position nodeTo)\<rparr>)))
      else Inr g)"

fun connect_to :: "Graph \<Rightarrow> int \<Rightarrow> int list \<Rightarrow> error + Graph" where
  "connect_to g f [] = Inr g"
| "connect_to g f (t # ts) =
     (case connect g f t of Inl err \<Rightarrow> Inl err | Inr g' \<Rightarrow> connect_to g' f ts)"

fun connect_from :: "Graph \<Rightarrow> int list \<Rightarrow> int list \<Rightarrow> error + Graph" where
  "connect_from g [] indices = Inr g"
| "connect_from g (f # fs) indices =
     (case connect_to g f indices of Inl err \<Rightarrow> Inl err | Inr g' \<Rightarrow> connect_from g' fs indices)"

fun connect_all :: "Graph \<Rightarrow> int list list \<Rightarrow> error + Graph" where
  "connect_all g [] = Inr g"
| "connect_all g (indices # rest) =
     (case connect_from g indices indices of Inl err \<Rightarrow> Inl err | Inr g' \<Rightarrow> connect_all g' rest)"

definition buildGraph :: "navmesh \<Rightarrow> (error + navmesh) option" where
  "buildGraph s =
     (case gather_regions (halfedges s) (polys s) ([], navgraph s) (regions s) of
        None \<Rightarrow> None
      | Some (nodeIndicesPerRegion, g) \<Rightarrow>
         (case connect_all g nodeIndicesPerRegion of
            Inl err \<Rightarrow> Some (Inl err)
          | Inr g' \<Rightarrow> Some (Inr (s\<lparr>navgraph := g'\<rparr>))))"

subsection \<open>fromPolygons\<close>

definition fromPolygons ::
  "(vec3 \<Rightarrow> vec3 \<Rightarrow> vec3 \<Rightarrow> bool) \<Rightarrow> navmesh \<Rightarrow> nat list \<Rightarrow> (error + navmesh) option" where
  "fromPolygons leftOn s polygons =
     (let s0 = clear s in
      case setup_edges (halfedges s0) (polys s0) polygons [] (regions s0) of
        None \<Rightarrow> None
      | Some (initialEdgeList, rs) \<Rightarrow>
         (let (h, sortedEdgeList) = link_twins (halfedges s0) initialEdgeList;
              s1 = s0\<lparr>halfedges := h, regions := rs\<rparr>
          in case buildRegions leftOn s1 (sort_by descending sortedEdgeList) of
               None \<Rightarrow> None
             | Some (Inl err) \<Rightarrow> Some (Inl err)
             | Some (Inr s2) \<Rightarrow>
                 (case buildNodeIndices s2 of
                    None \<Rightarrow> None
                  | Some s3 \<Rightarrow> buildGraph s3)))"

section \<open>Queries\<close>

text \<open>
  \<open>Polygon.contains\<close>, the \<open>AStar\<close> search and the \<open>LineSegment\<close> primitives are not among
  the source files and the spec gives them as external collaborators, so they are
  parameters: \<open>contains s r p eps\<close> is \<open>region.contains(p, eps)\<close> (\<open>eps = None\<close> when the
  call passes no tolerance), \<open>search g source target\<close> is \<open>None\<close> when \<open>found\<close> is false
  and the result of \<open>getPath()\<close> otherwise, \<open>cpp seg p\<close> is
  \<open>closestPointToPointParameter\<close> and \<open>at_seg seg t\<close> is \<open>at\<close> on the segment \<open>seg\<close>.
  \<open>minDistance\<close> starts at \<open>Infinity\<close>, written \<open>None\<close>: every distance is below it.
\<close>

type_synonym contains_fn = "navmesh \<Rightarrow> nat \<Rightarrow> vec3 \<Rightarrow> real option \<Rightarrow> bool"

definition below :: "real \<Rightarrow> real option \<Rightarrow> bool" where
  "below d minDistance = (case minDistance of None \<Rightarrow> True | Some m \<Rightarrow> d < m)"

definition closest_region_step ::
  "navmesh \<Rightarrow> vec3 \<Rightarrow> nat option \<times> real option \<Rightarrow> nat \<Rightarrow> nat option \<times> real option" where
  "closest_region_step s point acc region =
     (let distance = squaredDistanceTo point (centroid (polys s region))
      in if below distance (snd acc) then (Some region, Some distance) else acc)"

definition getClosestRegion :: "navmesh \<Rightarrow> vec3 \<Rightarrow> nat option" where
  "getClosestRegion s point = fst (foldl (closest_region_step s point) (None, None) (regions s))"

definition getRegionForPoint :: "contains_fn \<Rightarrow> navmesh \<Rightarrow> vec3 \<Rightarrow> real option \<Rightarrow> nat option" where
  "getRegionForPoint contains s point epsilon =
     find (\<lambda>region. contains s region point (Some (case epsilon of None \<Rightarrow> 1 / 1000 | Some e \<Rightarrow> e)))
       (regions s)"

definition closest_node_step ::
  "heap \<Rightarrow> vec3 \<Rightarrow> vec3 option \<Rightarrow> int option \<times> real option \<Rightarrow> nat \<Rightarrow> int option \<times> real option" where
  "closest_node_step h point target acc e =
     (let (closesNodeIndex, minDistance) = acc in
      if twin (h e) \<noteq> None \<or> twin (h (prev (h e))) \<noteq> None then
        (let distance = squaredDistanceTo point (from_v h e)
                        + (case target of None \<Rightarrow> 0 | Some tg \<Rightarrow> squaredDistanceTo tg (from_v h e))
         in if below distance minDistance then
              (Some (case twin (h e) of
                       Some _ \<Rightarrow> nodeIndex (h e)
                     | None \<Rightarrow> nodeIndex (h (the (twin (h (prev (h e))))))),
               Some distance)
            else acc)
      else acc)"

definition getClosestNodeIndexInRegion ::
  "navmesh \<Rightarrow> vec3 \<Rightarrow> nat option \<Rightarrow> vec3 option \<Rightarrow> (error + int option) option" where
  "getClosestNodeIndexInRegion s point region target =
     (case region of
        None \<Rightarrow> Some (Inl TypeError)
      | Some r \<Rightarrow>
         (case cycle (halfedges s) (edge (polys s r)) of
            None \<Rightarrow> None
          | Some es \<Rightarrow>
              Some (Inr (fst (foldl (closest_node_step (halfedges s) point target) (None, None) es)))))"

text \<open>
  The smoothing scan of \<open>findPath\<close>: the position of the first node of the path outside
  the region, or the length of the path when there is none.
\<close>

fun first_outside :: "Graph \<Rightarrow> (vec3 \<Rightarrow> bool) \<Rightarrow> int list \<Rightarrow> nat \<Rightarrow> error + nat" where
  "first_outside g inside [] i = Inr i"
| "first_outside g inside (ix # rest) i =
     (case getNode g ix of
        None \<Rightarrow> Inl TypeError
      | Some node \<Rightarrow>
          if \<not> inside (position node) then Inr i else first_outside g inside rest (Suc i))"

fun positions :: "Graph \<Rightarrow> int list \<Rightarrow> error + vec3 list" where
  "positions g [] = Inr []"
| "positions g (ix # rest) =
     (case getNode g ix of
        None \<Rightarrow> Inl TypeError
      | Some node \<Rightarrow>
         (case positions g rest of Inl err \<Rightarrow> Inl err | Inr ps \<Rightarrow> Inr (position node # ps)))"

definition smooth ::
  "contains_fn \<Rightarrow> navmesh \<Rightarrow> nat \<Rightarrow> nat \<Rightarrow> int list \<Rightarrow> error + int list" where
  "smooth contains s fromRegion toRegion shortestPath =
     (case first_outside (navgraph s) (\<lambda>p. contains s fromRegion p None) shortestPath 0 of
        Inl err \<Rightarrow> Inl err
      | Inr count \<Rightarrow>
         (let path1 = rev (drop (count - 1) shortestPath) in
          case first_outside (navgraph s) (\<lambda>p. contains s toRegion p None) path1 0 of
            Inl err \<Rightarrow> Inl err
          | Inr count2 \<Rightarrow> Inr (rev (drop (count2 - 1) path1))))"

definition resolve :: "contains_fn \<Rightarrow> navmesh \<Rightarrow> vec3 \<Rightarrow> nat option" where
  "resolve contains s point =
     (case getRegionForPoint contains s point None of
        None \<Rightarrow> getClosestRegion s point
      | Some r \<Rightarrow> Some r)"

definition findPath ::
  "contains_fn \<Rightarrow> (Graph \<Rightarrow> int option \<Rightarrow> int option \<Rightarrow> int list option)
     \<Rightarrow> navmesh \<Rightarrow> vec3 \<Rightarrow> vec3 \<Rightarrow> (error + vec3 list) option" where
  "findPath contains search s from to =
     (let fromRegion = resolve contains s from;
          toRegion = resolve contains s to
      in if fromRegion = toRegion then Some (Inr [from, to])
         else
          (case getClosestNodeIndexInRegion s from fromRegion (Some to) of
             None \<Rightarrow> None
           | Some (Inl err) \<Rightarrow> Some (Inl err)
           | Some (Inr source) \<Rightarrow>
              (case getClosestNodeIndexInRegion s to toRegion (Some from) of
                 None \<Rightarrow> None
               | Some (Inl err) \<Rightarrow> Some (Inl err)
               | Some (Inr target) \<Rightarrow>
                  (case search (navgraph s) source target of
                     None \<Rightarrow> Some (Inr [])
                   | Some shortestPath \<Rightarrow>
                      (case smooth contains s (the fromRegion) (the toRegion) shortestPath of
                         Inl err \<Rightarrow> Some (Inl err)
                       | Inr path \<Rightarrow>
                          (case positions (navgraph s) path of
                             Inl err \<Rightarrow> Some (Inl err)
                           | Inr ps \<Rightarrow> Some (Inr ([from] @ ps @ [to]))))))))"

subsection \<open>clampMovement\<close>

definition closest_edge_step ::
  "heap \<Rightarrow> vec3 \<Rightarrow> nat option \<times> real option \<Rightarrow> nat \<Rightarrow> nat option \<times> real option" where
  "closest_edge_step h startPosition acc e =
     (let distance = squaredDistanceTo startPosition (from_v h e)
      in if below distance (snd acc) then (Some e, Some distance) else acc)"

definition closest_edge :: "heap \<Rightarrow> vec3 \<Rightarrow> nat list \<Rightarrow> nat option" where
  "closest_edge h startPosition es = fst (foldl (closest_edge_step h startPosition) (None, None) es)"

text \<open>
  The three branches that choose the segment to slide along: the edge \<open>e\<close> and the
  parameter \<open>t\<close>, or nothing when no branch is taken (\<open>e\<close> and \<open>t\<close> stay undefined).
\<close>

definition choose_segment ::
  "(vec3 \<times> vec3 \<Rightarrow> vec3 \<Rightarrow> real) \<Rightarrow> (vec3 \<times> vec3 \<Rightarrow> real \<Rightarrow> vec3) \<Rightarrow> heap \<Rightarrow> vec3 \<Rightarrow> nat
     \<Rightarrow> (real \<times> nat) option" where
  "choose_segment cpp at_seg h startPosition closestEdge =
     (let p = prev (h closestEdge);
          seg1 = (vertex (h p), vertex (h closestEdge));
          seg2 = (vertex (h closestEdge), vertex (h (next (h closestEdge))))
      in if twin (h closestEdge) \<noteq> None \<and> twin (h p) = None then
           Some (cpp seg1 startPosition, p)
         else if twin (h closestEdge) = None \<and> twin (h p) \<noteq> None then
           Some (cpp seg2 startPosition, closestEdge)
         else if twin (h closestEdge) = None \<and> twin (h p) = None then
           (let t1 = cpp seg1 startPosition;
                d1 = squaredDistanceTo (at_seg seg1 t1) startPosition;
                t2 = cpp seg2 startPosition;
                d2 = squaredDistanceTo (at_seg seg2 t2) startPosition
            in if d1 \<le> d2 then Some (t1, p) else Some (t2, closestEdge))
         else None)"

definition slide ::
  "contains_fn \<Rightarrow> (vec3 \<times> vec3 \<Rightarrow> vec3 \<Rightarrow> real) \<Rightarrow> (vec3 \<times> vec3 \<Rightarrow> real \<Rightarrow> vec3) \<Rightarrow> navmesh
     \<Rightarrow> vec3 \<Rightarrow> vec3 \<Rightarrow> real \<Rightarrow> nat \<Rightarrow> vec3" where
  "slide contains cpp at_seg s startPosition endPosition t e =
     (let h = halfedges s;
          edgeDirection = normalize (subVectors (vertex (h (next (h e)))) (vertex (h e)));
          len = vlength (subVectors endPosition startPosition);
          movementDirection = divideScalar (subVectors endPosition startPosition) len;
          f = dot edgeDirection movementDirection;
          seg = (vertex (h e), vertex (h (next (h e))));
          closestPoint = at_seg seg t;
          newPosition = add closestPoint (multiplyScalar edgeDirection (f * len));
          t' = cpp seg newPosition
      in if t' \<ge> 0 \<and> t' \<le> 1 then newPosition
         else if getRegionForPoint contains s newPosition None \<noteq> None then newPosition
         else startPosition)"

text \<open>
  \<open>clampMovement\<close> returns the region and writes \<open>clampPosition\<close>; the result is the
  NavMesh state as the call leaves it, the region returned and \<open>clampPosition\<close> as the
  call leaves it.
\<close>

definition clampMovement ::
  "contains_fn \<Rightarrow> (vec3 \<times> vec3 \<Rightarrow> vec3 \<Rightarrow> real) \<Rightarrow> (vec3 \<times> vec3 \<Rightarrow> real \<Rightarrow> vec3) \<Rightarrow> navmesh
     \<Rightarrow> nat option \<Rightarrow> vec3 \<Rightarrow> vec3 \<Rightarrow> vec3 \<Rightarrow> (error + navmesh \<times> nat \<times> vec3) option" where
  "clampMovement contains cpp at_seg s currentRegion startPosition endPosition clampPosition =
     (case getRegionForPoint contains s endPosition None of
        Some nextRegion \<Rightarrow> Some (Inr (s, nextRegion, clampPosition))
      | None \<Rightarrow>
         (case currentRegion of
            None \<Rightarrow> Some (Inl NoCurrentRegion)
          | Some r \<Rightarrow>
             (case cycle (halfedges s) (edge (polys s r)) of
                None \<Rightarrow> None
              | Some es \<Rightarrow>
                 (case closest_edge (halfedges s) startPosition es of
                    None \<Rightarrow> Some (Inl TypeError)
                  | Some closestEdge \<Rightarrow>
                     (case choose_segment cpp at_seg (halfedges s) startPosition closestEdge of
                        None \<Rightarrow> Some (Inl TypeError)
                      | Some (t, e) \<Rightarrow>
                          Some (Inr (s, r,
                            slide contains cpp at_seg s startPosition endPosition t e)))))))"

section \<open>Predicates of the properties\<close>

text \<open>
  No two edges of the list run between the same two points in the same direction: the
  mesh is manifold along its edges.
\<close>

definition no_duplicate_edges :: "heap \<Rightarrow> nat list \<Rightarrow> bool" where
  "no_duplicate_edges h L \<longleftrightarrow>
     (\<forall>e \<in> set L. \<forall>e' \<in> set L.
        equals (from_v h e) (from_v h e') \<and> equals (to_v h e) (to_v h e') \<longrightarrow> e = e')"

text \<open>
  The invariant of the twin loop over the edge list \<open>L\<close>: vertices and \<open>next\<close> are those of
  the input heap \<open>h0\<close>, and twins are symmetric links between edges of \<open>L\<close> with reversed
  end points.
\<close>

definition twins_ok :: "heap \<Rightarrow> nat list \<Rightarrow> heap \<Rightarrow> bool" where
  "twins_ok h0 L h \<longleftrightarrow>
     (\<forall>x. vertex (h x) = vertex (h0 x) \<and> next (h x) = next (h0 x)) \<and>
     (\<forall>e t. twin (h e) = Some t \<longrightarrow>
        e \<in> set L \<and> t \<in> set L \<and> twin (h t) = Some e \<and> is_twin_of h0 e t)"

text \<open>Twin discovery links edges with reversed end points only.\<close>

definition matched :: "heap \<Rightarrow> heap \<Rightarrow> bool" where
  "matched h0 h \<longleftrightarrow>
     (\<forall>x. vertex (h x) = vertex (h0 x) \<and> next (h x) = next (h0 x) \<and> prev (h x) = prev (h0 x)) \<and>
     (\<forall>e t. twin (h e) = Some t \<longrightarrow> is_twin_of h0 e t \<and> is_twin_of h0 t e)"

text \<open>Frames: what a phase of the build leaves as it was.\<close>

definition same_shape :: "heap \<Rightarrow> heap \<Rightarrow> bool" where
  "same_shape h h' \<longleftrightarrow> (\<forall>x. twin (h' x) = twin (h x) \<and> vertex (h' x) = vertex (h x))"

definition same_links :: "heap \<Rightarrow> heap \<Rightarrow> bool" where
  "same_links h h' \<longleftrightarrow>
     (\<forall>x. twin (h' x) = twin (h x) \<and> vertex (h' x) = vertex (h x) \<and> next (h' x) = next (h x) \<and>
          prev (h' x) = prev (h x) \<and> polygon (h' x) = polygon (h x))"

text \<open>
  End points agree along the links: the predecessor of an edge ends where the edge starts,
  and twins have reversed end points.
\<close>

definition geo :: "heap \<Rightarrow> bool" where
  "geo h \<longleftrightarrow>
     (\<forall>e. to_v h (prev (h e)) = from_v h e) \<and>
     (\<forall>e t. twin (h e) = Some t \<longrightarrow> to_v h t = from_v h e \<and> to_v h e = from_v h t)"

text \<open>The node indices a region boundary exposes: the list \<open>_buildGraph\<close> gathers for it.\<close>

definition exposed :: "heap \<Rightarrow> nat list \<Rightarrow> int list" where
  "exposed h es =
     concat (map (\<lambda>e. case twin (h e) of None \<Rightarrow> [] | Some t \<Rightarrow> [nodeIndex (h e), nodeIndex (h t)]) es)"

text \<open>
  The graph has a navigation edge from \<open>i\<close> to \<open>j\<close> whose cost is the Euclidean distance
  between the positions of the nodes \<open>i\<close> and \<open>j\<close>.
\<close>

definition nav_edge :: "Graph \<Rightarrow> int \<Rightarrow> int \<Rightarrow> bool" where
  "nav_edge g i j \<longleftrightarrow>
     (\<exists>ni nj ed. getNode g i = Some ni \<and> getNode g j = Some nj \<and> ed \<in> set (g_edges g) \<and>
        e_from ed = i \<and> e_to ed = j \<and> cost ed = distanceTo (position ni) (position nj))"

definition costs_ok :: "Graph \<Rightarrow> bool" where
  "costs_ok g \<longleftrightarrow> (\<forall>ed \<in> set (g_edges g). nav_edge g (e_from ed) (e_to ed))"

text \<open>Adding navigation edges: nodes stay, edges only grow, costs stay right.\<close>

definition grows :: "Graph \<Rightarrow> Graph \<Rightarrow> bool" where
  "grows g g' \<longleftrightarrow> g_nodes g' = g_nodes g \<and> set (g_edges g) \<subseteq> set (g_edges g') \<and>
     (costs_ok g \<longrightarrow> costs_ok g')"

text \<open>
  The boundary edges of the regions in the order \<open>_buildNodeIndices\<close> visits them, the
  positions of a list in first-seen order without repetition, and the place of a value in
  a list.
\<close>

fun boundaries_of :: "heap \<Rightarrow> (nat \<Rightarrow> Polygon) \<Rightarrow> nat list \<Rightarrow> nat list option" where
  "boundaries_of h ps [] = Some []"
| "boundaries_of h ps (r # rs) =
     (case cycle h (edge (ps r)) of
        None \<Rightarrow> None
      | Some es \<Rightarrow> map_option ((@) es) (boundaries_of h ps rs))"

definition first_seen :: "'a list \<Rightarrow> 'a list" where
  "first_seen xs = foldl (\<lambda>acc x. if x \<in> set acc then acc else acc @ [x]) [] xs"

definition index_of :: "'a list \<Rightarrow> 'a \<Rightarrow> nat" where
  "index_of xs x = length (takeWhile (\<lambda>y. y \<noteq> x) xs)"

text \<open>
  The state of the node index loop after the edges \<open>visited\<close>: the map holds the
  positions seen so far in first-seen order under the indices 0, 1, 2, ...; every
  twin-bearing edge visited, and the successor of its twin, carry the index of the
  position the edge starts at.
\<close>

definition indexed :: "heap \<Rightarrow> nat list \<Rightarrow> heap \<times> (int \<times> vec3) list \<times> int \<Rightarrow> bool" where
  "indexed h0 visited st \<longleftrightarrow>
     (let tw = filter (\<lambda>e. twin (h0 e) \<noteq> None) visited;
          seen = first_seen (map (from_v h0) tw)
      in same_links h0 (fst st) \<and> snd (snd st) = int (length seen) \<and>
         (\<forall>q. find (\<lambda>ip. equals q (snd ip)) (fst (snd st)) =
                (if q \<in> set seen then Some (int (index_of seen q), q) else None)) \<and>
         (\<forall>e \<in> set tw. nodeIndex (fst st e) = int (index_of seen (from_v h0 e)) \<and>
            (\<forall>t. twin (h0 e) = Some t \<longrightarrow>
                 nodeIndex (fst st (next (h0 t))) = int (index_of seen (from_v h0 e)))))"

section \<open>Example meshes\<close>

text \<open>
  A triple test for the examples: the orientation of three points in the XZ plane
  (counter-clockwise or collinear). The half-edge constructor gives \<open>twin = null\<close> and
  \<open>nodeIndex = - 1\<close>.
\<close>

definition area :: "vec3 \<Rightarrow> vec3 \<Rightarrow> vec3 \<Rightarrow> real" where
  "area a b c = (vx c - vx a) * (vz b - vz a) - (vx b - vx a) * (vz c - vz a)"

definition leftOn_xz :: "vec3 \<Rightarrow> vec3 \<Rightarrow> vec3 \<Rightarrow> bool" where
  "leftOn_xz a b c = (area a b c \<ge> 0)"

definition he :: "real \<Rightarrow> real \<Rightarrow> nat \<Rightarrow> nat \<Rightarrow> nat \<Rightarrow> halfedge" where
  "he x z n p pg =
     \<lparr>vertex = Vector3 x 0 z, next = n, prev = p, twin = None, polygon = pg, nodeIndex = - 1\<rparr>"

definition linked :: "halfedge \<Rightarrow> nat \<Rightarrow> int \<Rightarrow> halfedge" where
  "linked e t ni = e\<lparr>twin := Some t, nodeIndex := ni\<rparr>"

definition mk_heap :: "halfedge list \<Rightarrow> heap" where
  "mk_heap es i = (if i < length es then es ! i else he 0 0 i i 0)"

definition mk_polys :: "Polygon list \<Rightarrow> nat \<Rightarrow> Polygon" where
  "mk_polys ps i = (if i < length ps then ps ! i else \<lparr>edge = 0, centroid = Vector3 0 0 0\<rparr>)"

text \<open>
  A unit square (polygon 0, edges 0 to 3) with a triangle on its right side (polygon 1,
  edges 4 to 6) and a triangle on its top side (polygon 2, edges 7 to 9). Neither
  triangle can be merged with the square: both unions have a reflex corner.
\<close>

definition example_heap :: heap where
  "example_heap =
     mk_heap [he 0 0 1 3 0, he 0 1 2 0 0, he 1 1 3 1 0, he 1 0 0 2 0,
              he 1 0 5 6 1, he 1 1 6 4 1, he 2 2 4 5 1,
              he 1 1 8 9 2, he 0 1 9 7 2, he (- 1) 2 7 8 2]"

definition example_polys :: "nat \<Rightarrow> Polygon" where
  "example_polys =
     mk_polys [\<lparr>edge = 0, centroid = Vector3 0 0 0\<rparr>, \<lparr>edge = 4, centroid = Vector3 0 0 0\<rparr>,
               \<lparr>edge = 7, centroid = Vector3 0 0 0\<rparr>]"

definition example_mesh :: navmesh where
  "example_mesh = constructor example_heap example_polys"

text \<open>The same mesh when region building starts: twins linked, every polygon a region.\<close>

definition example_linked_heap :: heap where
  "example_linked_heap =
     mk_heap [he 0 0 1 3 0, linked (he 0 1 2 0 0) 7 (- 1), linked (he 1 1 3 1 0) 4 (- 1),
              he 1 0 0 2 0,
              linked (he 1 0 5 6 1) 2 (- 1), he 1 1 6 4 1, he 2 2 4 5 1,
              linked (he 1 1 8 9 2) 1 (- 1), he 0 1 9 7 2, he (- 1) 2 7 8 2]"

definition example_linked :: navmesh where
  "example_linked =
     \<lparr>halfedges = example_linked_heap, polys = example_polys, regions = [0, 1, 2],
      navgraph = \<lparr>digraph = True, g_nodes = [], g_edges = []\<rparr>\<rparr>"

text \<open>
  The same mesh after node indexing, and as \<open>fromPolygons\<close> leaves it: three navigation
  nodes and the six navigation edges among them.
\<close>

definition example_built_heap :: heap where
  "example_built_heap =
     mk_heap [he 0 0 1 3 0, linked (he 0 1 2 0 0) 7 1, linked (he 1 1 3 1 0) 4 0,
              (he 1 0 0 2 0)\<lparr>nodeIndex := 2\<rparr>,
              linked (he 1 0 5 6 1) 2 2, (he 1 1 6 4 1)\<lparr>nodeIndex := 0\<rparr>, he 2 2 4 5 1,
              linked (he 1 1 8 9 2) 1 0, (he 0 1 9 7 2)\<lparr>nodeIndex := 1\<rparr>, he (- 1) 2 7 8 2]"

definition example_built_polys :: "nat \<Rightarrow> Polygon" where
  "example_built_polys =
     mk_polys [\<lparr>edge = 2, centroid = Vector3 (1 / 2) 0 (1 / 2)\<rparr>,
               \<lparr>edge = 4, centroid = Vector3 (4 / 3) 0 1\<rparr>,
               \<lparr>edge = 7, centroid = Vector3 0 0 (4 / 3)\<rparr>]"

definition example_indexed :: navmesh where
  "example_indexed =
     \<lparr>halfedges = example_built_heap, polys = example_built_polys, regions = [0, 1, 2],
      navgraph = \<lparr>digraph = True, g_nodes = [], g_edges = []\<rparr>\<rparr>"

definition example_graph :: Graph where
  "example_graph =
     \<lparr>digraph = True,
      g_nodes = [\<lparr>index = 0, position = Vector3 1 0 1\<rparr>, \<lparr>index = 1, position = Vector3 0 0 1\<rparr>,
                 \<lparr>index = 2, position = Vector3 1 0 0\<rparr>],
      g_edges = [\<lparr>e_from = 0, e_to = 2, cost = 1\<rparr>, \<lparr>e_from = 0, e_to = 1, cost = 1\<rparr>,
                 \<lparr>e_from = 2, e_to = 0, cost = 1\<rparr>, \<lparr>e_from = 2, e_to = 1, cost = sqrt 2\<rparr>,
                 \<lparr>e_from = 1, e_to = 0, cost = 1\<rparr>, \<lparr>e_from = 1, e_to = 2, cost = sqrt 2\<rparr>]\<rparr>"

definition example_built :: navmesh where
  "example_built = example_indexed\<lparr>navgraph := example_graph\<rparr>"

text \<open>A dart: a quadrilateral with a reflex corner, and no neighbour.\<close>

definition dart_mesh :: navmesh where
  "dart_mesh =
     constructor (mk_heap [he 0 0 1 3 0, he 0 3 2 0 0, he 1 1 3 1 0, he 3 0 0 2 0])
       (mk_polys [\<lparr>edge = 0, centroid = Vector3 0 0 0\<rparr>])"

section \<open>Heap updates\<close>

lemma set_next_fields [simp]:
  "next (set_next e v h x) = (if x = e then v else next (h x))"
  "prev (set_next e v h x) = prev (h x)"
  "twin (set_next e v h x) = twin (h x)"
  "vertex (set_next e v h x) = vertex (h x)"
  "polygon (set_next e v h x) = polygon (h x)"
  "nodeIndex (set_next e v h x) = nodeIndex (h x)"
  by (simp_all add: set_next_def)

lemma set_prev_fields [simp]:
  "next (set_prev e v h x) = next (h x)"
  "prev (set_prev e v h x) = (if x = e then v else prev (h x))"
  "twin (set_prev e v h x) = twin (h x)"
  "vertex (set_prev e v h x) = vertex (h x)"
  "polygon (set_prev e v h x) = polygon (h x)"
  "nodeIndex (set_prev e v h x) = nodeIndex (h x)"
  by (simp_all add: set_prev_def)

lemma set_twin_fields [simp]:
  "next (set_twin e v h x) = next (h x)"
  "prev (set_twin e v h x) = prev (h x)"
  "twin (set_twin e v h x) = (if x = e then Some v else twin (h x))"
  "vertex (set_twin e v h x) = vertex (h x)"
  "polygon (set_twin e v h x) = polygon (h x)"
  "nodeIndex (set_twin e v h x) = nodeIndex (h x)"
  by (simp_all add: set_twin_def)

lemma set_polygon_fields [simp]:
  "next (set_polygon e v h x) = next (h x)"
  "prev (set_polygon e v h x) = prev (h x)"
  "twin (set_polygon e v h x) = twin (h x)"
  "vertex (set_polygon e v h x) = vertex (h x)"
  "polygon (set_polygon e v h x) = (if x = e then v else polygon (h x))"
  "nodeIndex (set_polygon e v h x) = nodeIndex (h x)"
  by (simp_all add: set_polygon_def)

lemma set_nodeIndex_fields [simp]:
  "next (set_nodeIndex e v h x) = next (h x)"
  "prev (set_nodeIndex e v h x) = prev (h x)"
  "twin (set_nodeIndex e v h x) = twin (h x)"
  "vertex (set_nodeIndex e v h x) = vertex (h x)"
  "polygon (set_nodeIndex e v h x) = polygon (h x)"
  "nodeIndex (set_nodeIndex e v h x) = (if x = e then v else nodeIndex (h x))"
  by (simp_all add: set_nodeIndex_def)

lemma splice_fields [simp]:
  "twin (splice h c t x) = twin (h x)"
  "vertex (splice h c t x) = vertex (h x)"
  "polygon (splice h c t x) = polygon (h x)"
  "nodeIndex (splice h c t x) = nodeIndex (h x)"
  by (simp_all add: splice_def Let_def)

lemma splice_next:
  "next (splice h c t x) =
     (if x = prev (h t) then (if prev (h c) = c then next (h t) else next (h c))
      else if x = prev (h c) then next (h t) else next (h x))"
  by (simp add: splice_def Let_def)

lemma splice_prev:
  "prev (splice h c t x) =
     (let n' = (if prev (h c) = c then next (h t) else next (h c));
          tn' = (if prev (h t) = t then n' else next (h t));
          p' = (if c = n' then prev (h t) else prev (h c))
      in if x = tn' then p' else if x = n' then prev (h t) else prev (h x))"
  by (simp add: splice_def Let_def)

lemma restore_fields [simp]:
  "twin (restore h c t a b d e x) = twin (h x)"
  "vertex (restore h c t a b d e x) = vertex (h x)"
  "polygon (restore h c t a b d e x) = polygon (h x)"
  "nodeIndex (restore h c t a b d e x) = nodeIndex (h x)"
  "next (restore h c t a b d e x) = (if x = d then t else if x = a then c else next (h x))"
  "prev (restore h c t a b d e x) = (if x = e then t else if x = b then c else prev (h x))"
  by (simp_all add: restore_def Let_def)

lemma relabel_fields [simp]:
  "next (foldl (\<lambda>hh e. set_polygon e pg hh) h es x) = next (h x)"
  "prev (foldl (\<lambda>hh e. set_polygon e pg hh) h es x) = prev (h x)"
  "twin (foldl (\<lambda>hh e. set_polygon e pg hh) h es x) = twin (h x)"
  "vertex (foldl (\<lambda>hh e. set_polygon e pg hh) h es x) = vertex (h x)"
  "nodeIndex (foldl (\<lambda>hh e. set_polygon e pg hh) h es x) = nodeIndex (h x)"
  by (induction es arbitrary: h; simp)+

lemma relabel_polygon:
  "polygon (foldl (\<lambda>hh e. set_polygon e pg hh) h es x) = (if x \<in> set es then pg else polygon (h x))"
  by (induction es arbitrary: h) auto

lemma equals_iff [simp]: "equals a b \<longleftrightarrow> a = b"
  by (cases a; cases b) (auto simp: equals_def)

text \<open>Frame of the twin loop: it writes twin fields only.\<close>

lemma link_twin_frame:
  "link_twin L hw e0 = hw' \<Longrightarrow>
     next (fst hw' x) = next (fst hw x) \<and> prev (fst hw' x) = prev (fst hw x) \<and>
     vertex (fst hw' x) = vertex (fst hw x) \<and> polygon (fst hw' x) = polygon (fst hw x) \<and>
     nodeIndex (fst hw' x) = nodeIndex (fst hw x)"
  by (cases hw) (auto simp: link_twin_def Let_def split: option.splits if_splits)

lemma from_v_cong: "(\<And>x. vertex (h' x) = vertex (h x)) \<Longrightarrow> from_v h' = from_v h"
  by (auto simp: from_v_def fun_eq_iff)

lemma to_v_cong:
  "(\<And>x. vertex (h' x) = vertex (h x)) \<Longrightarrow> (\<And>x. next (h' x) = next (h x)) \<Longrightarrow> to_v h' = to_v h"
  by (auto simp: to_v_def fun_eq_iff)

lemma is_twin_of_cong:
  "(\<And>x. vertex (h' x) = vertex (h x)) \<Longrightarrow> (\<And>x. next (h' x) = next (h x)) \<Longrightarrow>
     is_twin_of h' = is_twin_of h"
  by (simp add: is_twin_of_def fun_eq_iff from_v_cong[of h' h] to_v_cong[of h' h])

lemma is_twin_of_sym: "is_twin_of h a b \<Longrightarrow> is_twin_of h b a"
  unfolding is_twin_of_def equals_iff by (metis)

section \<open>Frames of the build phases\<close>

lemma same_shape_refl [simp]: "same_shape h h"
  by (simp add: same_shape_def)

lemma same_shape_trans: "same_shape h h' \<Longrightarrow> same_shape h' h'' \<Longrightarrow> same_shape h h''"
  by (simp add: same_shape_def)

lemma merge_candidate_frame:
  assumes "merge_candidate leftOn s c = Some (Inr s')"
  shows "same_shape (halfedges s) (halfedges s') \<and> navgraph s' = navgraph s"
  using assms
  by (auto simp: merge_candidate_def Let_def same_shape_def split: option.splits bool.splits)

lemma merge_all_frame:
  "merge_all leftOn s es = Some (Inr s') \<Longrightarrow>
     same_shape (halfedges s) (halfedges s') \<and> navgraph s' = navgraph s"
proof (induction es arbitrary: s)
  case Nil
  then show ?case by simp
next
  case (Cons en es)
  from Cons.prems obtain s1 where
    m: "merge_candidate leftOn s (snd en) = Some (Inr s1)" and r: "merge_all leftOn s1 es = Some (Inr s')"
    by (auto split: option.splits sum.splits)
  from merge_candidate_frame[OF m] Cons.IH[OF r] show ?case
    by (auto intro: same_shape_trans)
qed

lemma centroids_frame:
  "centroids s rs = Some s' \<Longrightarrow>
     halfedges s' = halfedges s \<and> regions s' = regions s \<and> navgraph s' = navgraph s \<and>
     (\<forall>r. edge (polys s' r) = edge (polys s r))"
proof (induction rs arbitrary: s)
  case Nil
  then show ?case by simp
next
  case (Cons r rs)
  from Cons.prems obtain p where
    p: "computeCentroid (halfedges s) (polys s r) = Some p"
    and c: "centroids (s\<lparr>polys := (polys s)(r := p)\<rparr>) rs = Some s'"
    by (auto split: option.splits)
  from p have "edge p = edge (polys s r)"
    by (auto simp: computeCentroid_def split: option.splits)
  with Cons.IH[OF c] show ?case by auto
qed

lemma buildRegions_frame:
  assumes "buildRegions leftOn s es = Some (Inr s')"
  shows "same_shape (halfedges s) (halfedges s') \<and> navgraph s' = navgraph s"
proof -
  from assms obtain s1 where m: "merge_all leftOn s es = Some (Inr s1)"
    and c: "centroids s1 (regions s1) = Some s'"
    by (auto simp: buildRegions_def split: option.splits sum.splits)
  from merge_all_frame[OF m] centroids_frame[OF c] show ?thesis by simp
qed

lemma same_links_refl [simp]: "same_links h h"
  by (simp add: same_links_def)

lemma same_links_trans: "same_links h h' \<Longrightarrow> same_links h' h'' \<Longrightarrow> same_links h h''"
  by (simp add: same_links_def)

lemma same_links_cycle: "same_links h h' \<Longrightarrow> cycle h' = cycle h"
  by (simp add: same_links_def cycle_def fun_eq_iff)

lemma index_edge_frame: "same_links (fst st) (fst (index_edge st e))"
  by (cases st) (auto simp: index_edge_def Let_def same_links_def split: option.splits)

lemma index_fold_frame: "same_links (fst st) (fst (foldl index_edge st es))"
proof (induction es arbitrary: st)
  case Nil
  then show ?case by simp
next
  case (Cons e es)
  from index_edge_frame[of st e] Cons.IH[of "index_edge st e"] show ?case
    by (auto intro: same_links_trans)
qed

lemma index_regions_frame:
  "index_regions ps st rs = Some st' \<Longrightarrow> same_links (fst st) (fst st')"
proof (induction rs arbitrary: st)
  case Nil
  then show ?case by simp
next
  case (Cons r rs)
  from Cons.prems obtain es where
    r: "index_regions ps (foldl index_edge st es) rs = Some st'"
    by (auto split: option.splits)
  from index_fold_frame[of st es] Cons.IH[OF r] show ?case
    by (auto intro: same_links_trans)
qed

lemma buildNodeIndices_frame:
  assumes "buildNodeIndices s = Some s'"
  shows "same_links (halfedges s) (halfedges s') \<and> polys s' = polys s \<and> regions s' = regions s \<and>
         navgraph s' = navgraph s"
  using assms index_regions_frame[of "polys s" "(halfedges s, [], 0)" "regions s"]
  by (auto simp: buildNodeIndices_def)

lemma buildGraph_frame:
  assumes "buildGraph s = Some (Inr s')"
  shows "halfedges s' = halfedges s \<and> polys s' = polys s \<and> regions s' = regions s"
  using assms by (auto simp: buildGraph_def split: option.splits sum.splits prod.splits)

lemma fromPolygons_phases:
  assumes "fromPolygons leftOn s polygons = Some (Inr s')"
  obtains L rs h w s2 s3 where
    "setup_edges (halfedges s) (polys s) polygons [] [] = Some (L, rs)"
    "link_twins (halfedges s) L = (h, w)"
    "buildRegions leftOn ((clear s)\<lparr>halfedges := h, regions := rs\<rparr>) (sort_by descending w) = Some (Inr s2)"
    "buildNodeIndices s2 = Some s3"
    "buildGraph s3 = Some (Inr s')"
proof -
  from assms obtain L rs where
    se: "setup_edges (halfedges s) (polys s) polygons [] [] = Some (L, rs)"
    by (auto simp: fromPolygons_def clear_def Let_def split: option.splits)
  obtain h w where lt: "link_twins (halfedges s) L = (h, w)"
    by (cases "link_twins (halfedges s) L")
  from assms se lt obtain s2 where
    br: "buildRegions leftOn ((clear s)\<lparr>halfedges := h, regions := rs\<rparr>) (sort_by descending w) = Some (Inr s2)"
    by (auto simp: fromPolygons_def clear_def Let_def split: option.splits sum.splits)
  from assms se lt br obtain s3 where
    bn: "buildNodeIndices s2 = Some s3" and bg: "buildGraph s3 = Some (Inr s')"
    by (auto simp: fromPolygons_def clear_def Let_def split: option.splits sum.splits)
  from se lt br bn bg show ?thesis by (rule that)
qed

section \<open>The example mesh, built\<close>

lemma mk_heap_set_next: "e < length xs \<Longrightarrow> set_next e v (mk_heap xs) = mk_heap (xs[e := (xs ! e)\<lparr>next := v\<rparr>])"
  by (auto simp: set_next_def mk_heap_def fun_eq_iff)

lemma mk_heap_set_prev: "e < length xs \<Longrightarrow> set_prev e v (mk_heap xs) = mk_heap (xs[e := (xs ! e)\<lparr>prev := v\<rparr>])"
  by (auto simp: set_prev_def mk_heap_def fun_eq_iff)

lemma mk_heap_set_twin: "e < length xs \<Longrightarrow> set_twin e v (mk_heap xs) = mk_heap (xs[e := (xs ! e)\<lparr>twin := Some v\<rparr>])"
  by (auto simp: set_twin_def mk_heap_def fun_eq_iff)

lemma mk_heap_set_polygon: "e < length xs \<Longrightarrow> set_polygon e v (mk_heap xs) = mk_heap (xs[e := (xs ! e)\<lparr>polygon := v\<rparr>])"
  by (auto simp: set_polygon_def mk_heap_def fun_eq_iff)

lemma mk_heap_set_nodeIndex: "e < length xs \<Longrightarrow> set_nodeIndex e v (mk_heap xs) = mk_heap (xs[e := (xs ! e)\<lparr>nodeIndex := v\<rparr>])"
  by (auto simp: set_nodeIndex_def mk_heap_def fun_eq_iff)

lemma mk_heap_apply: "e < length xs \<Longrightarrow> mk_heap xs e = xs ! e"
  by (simp add: mk_heap_def)

lemma mk_polys_upd: "r < length ps \<Longrightarrow> (mk_polys ps)(r := p) = mk_polys (ps[r := p])"
  by (auto simp: mk_polys_def fun_eq_iff)

lemma mk_polys_apply: "r < length ps \<Longrightarrow> mk_polys ps r = ps ! r"
  by (simp add: mk_polys_def)

lemmas mk_simps = mk_heap_set_next mk_heap_set_prev mk_heap_set_twin mk_heap_set_polygon
  mk_heap_set_nodeIndex mk_heap_apply mk_polys_upd mk_polys_apply

lemmas eval_defs = merge_candidate_def splice_def restore_def convex_def convex_loop.simps
  cycle_def walk.simps computeCentroid_def mean_def add_def divideScalar_def
  from_v_def to_v_def leftOn_xz_def area_def mk_simps he_def linked_def Let_def
  set_delete_def set_add_def

lemma example_edges:
  "setup_edges example_heap example_polys [0, 1, 2] [] [] = Some ([0, 1, 2, 3, 4, 5, 6, 7, 8, 9], [0, 1, 2])"
  by (simp add: example_heap_def example_polys_def eval_defs)

lemma example_twins:
  "link_twins example_heap [0, 1, 2, 3, 4, 5, 6, 7, 8, 9] = (example_linked_heap, [(1, 1), (1, 2)])"
  by (simp add: link_twins_def link_twin_def example_heap_def example_linked_heap_def is_twin_of_def
      squaredLength_def squaredDistanceTo_def equals_def eval_defs)

lemma example_sorted: "sort_by descending [(1, 1), (1, 2)] = [(1, 1), (1, 2 :: nat)]"
  by (simp add: sort_by_def descending_def)

lemma example_regions:
  "buildRegions leftOn_xz example_linked [(1, 1), (1, 2)] =
     Some (Inr (example_linked\<lparr>polys := example_built_polys\<rparr>))"
  by (simp add: buildRegions_def eval_defs
      example_linked_def example_linked_heap_def example_polys_def example_built_polys_def)

lemma example_indices:
  "buildNodeIndices (example_linked\<lparr>polys := example_built_polys\<rparr>) = Some example_indexed"
  by (simp add: buildNodeIndices_def index_edge_def lookup_index_def equals_def eval_defs
      example_linked_def example_linked_heap_def example_built_polys_def example_indexed_def
      example_built_heap_def)

lemma example_navgraph: "buildGraph example_indexed = Some (Inr example_built)"
  by (simp add: buildGraph_def gather_edge_def connect_def hasNode_def getNode_def hasEdge_def
      addNode_def addEdge_def distanceTo_def squaredDistanceTo_def eval_defs
      example_built_polys_def example_built_def example_indexed_def example_built_heap_def
      example_graph_def)

lemma example_build: "fromPolygons leftOn_xz example_mesh [0, 1, 2] = Some (Inr example_built)"
proof -
  have c: "halfedges (clear example_mesh) = example_heap" "polys (clear example_mesh) = example_polys"
    "regions (clear example_mesh) = []"
    by (simp_all add: example_mesh_def constructor_def clear_def)
  have s1: "(clear example_mesh)\<lparr>halfedges := example_linked_heap, regions := [0, 1, 2]\<rparr> = example_linked"
    by (simp add: example_mesh_def constructor_def clear_def graph_clear_def example_linked_def)
  show ?thesis
    by (simp only: fromPolygons_def Let_def c example_edges example_twins example_sorted s1
        example_regions example_indices example_navgraph option.case sum.case prod.case)
qed

lemma example_fresh: "\<forall>e. twin (example_heap e) = None"
proof
  fix e :: nat
  consider "e < 10" | "e \<ge> 10" by linarith
  then show "twin (example_heap e) = None"
  proof cases
    case 1
    then have "e \<in> {0, 1, 2, 3, 4, 5, 6, 7, 8, 9}" by auto
    then show ?thesis by (auto simp: example_heap_def mk_heap_def he_def)
  next
    case 2
    then show ?thesis by (simp add: example_heap_def mk_heap_def he_def)
  qed
qed

lemma example_wired: "\<forall>e. next (example_heap (prev (example_heap e))) = e"
proof
  fix e :: nat
  consider "e < 10" | "e \<ge> 10" by linarith
  then show "next (example_heap (prev (example_heap e))) = e"
  proof cases
    case 1
    then have "e \<in> {0, 1, 2, 3, 4, 5, 6, 7, 8, 9}" by auto
    then show ?thesis by (auto simp: example_heap_def mk_heap_def he_def)
  next
    case 2
    then show ?thesis by (simp add: example_heap_def mk_heap_def he_def)
  qed
qed

lemma example_no_duplicates: "no_duplicate_edges example_heap [0, 1, 2, 3, 4, 5, 6, 7, 8, 9]"
  by (simp add: no_duplicate_edges_def example_heap_def from_v_def to_v_def mk_heap_def he_def)

lemma example_input:
  "halfedges example_mesh = example_heap" "polys example_mesh = example_polys"
  by (simp_all add: example_mesh_def constructor_def)

lemma example_mesh_wired: "\<forall>e. next (halfedges example_mesh (prev (halfedges example_mesh e))) = e"
  unfolding example_input by (rule example_wired)

lemma example_mesh_fresh: "\<forall>e. twin (halfedges example_mesh e) = None"
  unfolding example_input by (rule example_fresh)

lemma example_mesh_edges:
  "setup_edges (halfedges example_mesh) (polys example_mesh) [0, 1, 2] [] []
     = Some ([0, 1, 2, 3, 4, 5, 6, 7, 8, 9], [0, 1, 2])"
  unfolding example_input by (rule example_edges)

lemma example_mesh_no_duplicates:
  "no_duplicate_edges (halfedges example_mesh) [0, 1, 2, 3, 4, 5, 6, 7, 8, 9]"
  unfolding example_input by (rule example_no_duplicates)

lemma example_built_cycles:
  "cycle (halfedges example_built) (edge (polys example_built 0)) = Some [2, 3, 0, 1]"
  "cycle (halfedges example_built) (edge (polys example_built 1)) = Some [4, 5, 6]"
  "cycle (halfedges example_built) (edge (polys example_built 2)) = Some [7, 8, 9]"
  by (simp_all add: cycle_def walk.simps example_built_def example_indexed_def example_built_heap_def
      example_built_polys_def mk_heap_def mk_polys_def he_def linked_def)

section \<open>Region merge: the rollback\<close>

lemma restore_splice:
  assumes "next (h (prev (h c))) = c" "prev (h (next (h c))) = c"
          "next (h (prev (h t))) = t" "prev (h (next (h t))) = t"
  shows "restore (splice h c t) c t (prev (h c)) (next (h c)) (prev (h t)) (next (h t)) = h"
proof (rule ext)
  fix e
  let ?r = "restore (splice h c t) c t (prev (h c)) (next (h c)) (prev (h t)) (next (h t)) e"
  have n: "next ?r = next (h e)"
    using assms by (auto simp: splice_next)
  have p: "prev ?r = prev (h e)"
    using assms by (auto simp: splice_prev Let_def)
  show "?r = h e"
    using n p by (intro halfedge.equality) simp_all
qed

lemma merge_candidate_not_convex:
  assumes tw: "twin (halfedges s c) = Some t"
      and wired: "next (halfedges s (prev (halfedges s c))) = c"
                 "prev (halfedges s (next (halfedges s c))) = c"
                 "next (halfedges s (prev (halfedges s t))) = t"
                 "prev (halfedges s (next (halfedges s t))) = t"
      and nc: "convex leftOn (splice (halfedges s) c t)
                 ((polys s (polygon (halfedges s c)))\<lparr>edge := prev (splice (halfedges s) c t c)\<rparr>)
               = Some False"
  shows "merge_candidate leftOn s c =
           Some (Inr (s\<lparr>polys := (polys s)(polygon (halfedges s c) :=
                                      (polys s (polygon (halfedges s c)))\<lparr>edge := c\<rparr>)\<rparr>))"
  using tw nc restore_splice[OF wired]
  by (simp add: merge_candidate_def Let_def)

text \<open>
  Claim C2, as amended. For a merge candidate whose half-edges are consistently linked
  (\<open>prev\<close> and \<open>next\<close> inverse to each other at the candidate and at its twin) and whose
  spliced cycle fails the convexity test, the candidate step returns with every
  half-edge (so the \<open>next\<close>/\<open>prev\<close> linkage of the four relinked edges), the region set
  and the graph identical to their values before the splice. The edge pointer of the
  candidate's polygon is not restored to its former value: it is set to the candidate
  edge; nothing else of the polygon changes.
\<close>

theorem merge_candidate_rollback:
  assumes tw: "twin (halfedges s c) = Some t"
      and wired: "next (halfedges s (prev (halfedges s c))) = c"
                 "prev (halfedges s (next (halfedges s c))) = c"
                 "next (halfedges s (prev (halfedges s t))) = t"
                 "prev (halfedges s (next (halfedges s t))) = t"
      and nc: "convex leftOn (splice (halfedges s) c t)
                 ((polys s (polygon (halfedges s c)))\<lparr>edge := prev (splice (halfedges s) c t c)\<rparr>)
               = Some False"
  shows "\<exists>s'. merge_candidate leftOn s c = Some (Inr s') \<and>
           halfedges s' = halfedges s \<and> regions s' = regions s \<and> navgraph s' = navgraph s \<and>
           polys s' = (polys s)(polygon (halfedges s c) :=
                                  (polys s (polygon (halfedges s c)))\<lparr>edge := c\<rparr>)"
  using merge_candidate_not_convex[OF tw wired nc] by simp

lemma example_not_convex:
  "convex leftOn_xz (splice (halfedges example_linked) 2 4)
     ((polys example_linked (polygon (halfedges example_linked 2)))
        \<lparr>edge := prev (splice (halfedges example_linked) 2 4 2)\<rparr>) = Some False"
  by (simp add: convex_def convex_loop.simps splice_next splice_prev from_v_def to_v_def
      leftOn_xz_def area_def example_linked_def example_linked_heap_def example_polys_def
      mk_heap_def mk_polys_def he_def linked_def Let_def)

lemma example_linked_wired:
  "twin (halfedges example_linked 2) = Some 4"
  "next (halfedges example_linked (prev (halfedges example_linked 2))) = 2"
  "prev (halfedges example_linked (next (halfedges example_linked 2))) = 2"
  "next (halfedges example_linked (prev (halfedges example_linked 4))) = 4"
  "prev (halfedges example_linked (next (halfedges example_linked 4))) = 4"
  by (simp_all add: example_linked_def example_linked_heap_def mk_heap_def he_def linked_def)

text \<open>
  Claim C2 as stated fails: on the example mesh the square's edge pointer is edge 0 before
  the candidate step for edge 2, the spliced cycle is not convex, and after the rollback
  the pointer is edge 2.
\<close>

theorem rollback_edge_pointer_counterexample:
  "merge_candidate leftOn_xz example_linked 2 =
     Some (Inr (example_linked\<lparr>polys := (polys example_linked)(0 := (polys example_linked 0)\<lparr>edge := 2\<rparr>)\<rparr>))
   \<and> edge (polys example_linked 0) = 0
   \<and> edge (((polys example_linked)(0 := (polys example_linked 0)\<lparr>edge := 2\<rparr>)) 0) = 2"
proof -
  have pg: "polygon (halfedges example_linked 2) = 0"
    by (simp add: example_linked_def example_linked_heap_def mk_heap_def he_def linked_def)
  have e0: "edge (polys example_linked 0) = 0"
    by (simp add: example_linked_def example_polys_def mk_polys_def)
  from merge_candidate_not_convex[OF example_linked_wired example_not_convex] pg e0
  show ?thesis by simp
qed

theorem merge_candidate_rollback_witness:
  "twin (halfedges example_linked 2) = Some 4 \<and>
   convex leftOn_xz (splice (halfedges example_linked) 2 4)
     ((polys example_linked (polygon (halfedges example_linked 2)))
        \<lparr>edge := prev (splice (halfedges example_linked) 2 4 2)\<rparr>) = Some False \<and>
   (\<exists>s'. merge_candidate leftOn_xz example_linked 2 = Some (Inr s') \<and>
         halfedges s' = halfedges example_linked \<and> regions s' = regions example_linked \<and>
         navgraph s' = navgraph example_linked \<and>
         polys s' = (polys example_linked)(polygon (halfedges example_linked 2) :=
                       (polys example_linked (polygon (halfedges example_linked 2)))\<lparr>edge := 2\<rparr>))"
  using merge_candidate_rollback[OF example_linked_wired example_not_convex]
    example_linked_wired(1) example_not_convex
  by blast

section \<open>Twin symmetry\<close>

lemma twins_okD:
  "twins_ok h0 L h \<Longrightarrow> twin (h e) = Some t \<Longrightarrow>
     e \<in> set L \<and> t \<in> set L \<and> twin (h t) = Some e \<and> is_twin_of h0 e t"
  unfolding twins_ok_def by blast

lemma twins_ok_frame:
  "twins_ok h0 L h \<Longrightarrow> vertex (h x) = vertex (h0 x) \<and> next (h x) = next (h0 x)"
  unfolding twins_ok_def by blast

lemma link_twin_ok:
  assumes ok: "twins_ok h0 L h" and nd: "no_duplicate_edges h0 L" and e0: "e0 \<in> set L"
  shows "twins_ok h0 L (fst (link_twin L (h, w) e0))"
proof (cases "twin (h e0)")
  case (Some a)
  then show ?thesis using ok by (simp add: link_twin_def)
next
  case None
  note free0 = None
  have same: "is_twin_of h = is_twin_of h0"
    using twins_ok_frame[OF ok] by (intro is_twin_of_cong) auto
  show ?thesis
  proof (cases "find (is_twin_of h0 e0) L")
    case None
    then show ?thesis using ok free0 by (simp add: link_twin_def same)
  next
    case (Some e1)
    then have e1: "e1 \<in> set L" and m: "is_twin_of h0 e0 e1"
      by (auto simp: find_Some_iff)
    have e1_free: "twin (h e1) = None"
    proof (rule ccontr)
      assume "twin (h e1) \<noteq> None"
      then obtain t' where t': "twin (h e1) = Some t'" by auto
      from twins_okD[OF ok t'] have t'L: "t' \<in> set L" and sym1: "twin (h t') = Some e1"
        and m': "is_twin_of h0 e1 t'"
        by simp_all
      from m m' have "equals (from_v h0 e0) (from_v h0 t') \<and> equals (to_v h0 e0) (to_v h0 t')"
        by (simp add: is_twin_of_def)
      with nd e0 t'L have "e0 = t'" by (auto simp: no_duplicate_edges_def)
      with sym1 free0 show False by simp
    qed
    have nopoint: "t \<noteq> e0 \<and> t \<noteq> e1 \<and> x \<noteq> e0 \<and> x \<noteq> e1" if a: "twin (h x) = Some t" for x t
    proof -
      from twins_okD[OF ok a] have b: "twin (h t) = Some x" by simp
      show ?thesis using a b free0 e1_free by auto
    qed
    have m_sym: "is_twin_of h0 e1 e0"
      using m by (auto simp: is_twin_of_def)
    have res: "fst (link_twin L (h, w) e0) = set_twin e1 e0 (set_twin e0 e1 h)"
      using free0 Some by (simp add: link_twin_def same Let_def)
    show ?thesis
      unfolding res twins_ok_def
    proof (intro conjI allI impI)
      fix x
      show "vertex (set_twin e1 e0 (set_twin e0 e1 h) x) = vertex (h0 x)"
        using twins_ok_frame[OF ok] by simp
      show "next (set_twin e1 e0 (set_twin e0 e1 h) x) = next (h0 x)"
        using twins_ok_frame[OF ok] by simp
    next
      fix e t
      assume a: "twin (set_twin e1 e0 (set_twin e0 e1 h) e) = Some t"
      consider "e = e1" "t = e0" | "e = e0" "e \<noteq> e1" "t = e1" | "e \<noteq> e0" "e \<noteq> e1" "twin (h e) = Some t"
        using a by (auto split: if_splits)
      then have "e \<in> set L \<and> t \<in> set L \<and> twin (set_twin e1 e0 (set_twin e0 e1 h) t) = Some e \<and>
                 is_twin_of h0 e t"
      proof cases
        case 1
        then show ?thesis using e0 e1 m_sym by simp
      next
        case 2
        then show ?thesis using e0 e1 m by simp
      next
        case 3
        from twins_okD[OF ok 3(3)] nopoint[OF 3(3)] show ?thesis by simp
      qed
      then show "e \<in> set L" "t \<in> set L"
        "twin (set_twin e1 e0 (set_twin e0 e1 h) t) = Some e" "is_twin_of h0 e t"
        by simp_all
    qed
  qed
qed

lemma link_twins_fold_ok:
  assumes "twins_ok h0 L (fst hw)" and "no_duplicate_edges h0 L" and "set es \<subseteq> set L"
  shows "twins_ok h0 L (fst (foldl (link_twin L) hw es))"
  using assms
proof (induction es arbitrary: hw)
  case Nil
  then show ?case by simp
next
  case (Cons e es)
  obtain h w where hw: "hw = (h, w)" by (cases hw)
  from Cons.prems have "twins_ok h0 L (fst (link_twin L (h, w) e))"
    by (intro link_twin_ok) (auto simp: hw)
  with Cons show ?case by (simp add: hw)
qed

lemma link_twins_ok:
  assumes "\<forall>e. twin (h e) = None" and "no_duplicate_edges h L"
  shows "twins_ok h L (fst (link_twins h L))"
  unfolding link_twins_def
  using assms by (intro link_twins_fold_ok) (auto simp: twins_ok_def)

text \<open>
  Claim C8. After \<open>fromPolygons\<close> on polygons whose half-edges come without twins and of
  which no two run between the same two points in the same direction, twin linking is
  symmetric: whenever \<open>e.twin\<close> is some edge \<open>t\<close>, \<open>t.twin\<close> is \<open>e\<close>. Twin discovery
  establishes the symmetry, and the later phases write no twin reference.
\<close>

theorem twin_symmetry:
  assumes build: "fromPolygons leftOn s polygons = Some (Inr s')"
      and edges: "setup_edges (halfedges s) (polys s) polygons [] [] = Some (L, rs)"
      and fresh: "\<forall>e. twin (halfedges s e) = None"
      and nodup: "no_duplicate_edges (halfedges s) L"
  shows "\<forall>e t. twin (halfedges s' e) = Some t \<longrightarrow> twin (halfedges s' t) = Some e"
proof -
  from build obtain L' rs' h w s2 s3 where
    se: "setup_edges (halfedges s) (polys s) polygons [] [] = Some (L', rs')" and
    lt: "link_twins (halfedges s) L' = (h, w)" and
    br: "buildRegions leftOn ((clear s)\<lparr>halfedges := h, regions := rs'\<rparr>) (sort_by descending w) = Some (Inr s2)" and
    bn: "buildNodeIndices s2 = Some s3" and
    bg: "buildGraph s3 = Some (Inr s')"
    by (rule fromPolygons_phases)
  from se edges have [simp]: "L' = L" by simp
  from link_twins_ok[OF fresh nodup] lt have ok: "twins_ok (halfedges s) L h" by simp
  from buildRegions_frame[OF br] have 1: "\<forall>x. twin (halfedges s2 x) = twin (h x)"
    by (simp add: same_shape_def)
  from buildNodeIndices_frame[OF bn] have 2: "\<forall>x. twin (halfedges s3 x) = twin (halfedges s2 x)"
    by (simp add: same_links_def)
  from buildGraph_frame[OF bg] have 3: "halfedges s' = halfedges s3" by simp
  show ?thesis
  proof (intro allI impI)
    fix e t assume "twin (halfedges s' e) = Some t"
    with 1 2 3 have "twin (h e) = Some t" by simp
    from twins_okD[OF ok this] have "twin (h t) = Some e" by simp
    with 1 2 3 show "twin (halfedges s' t) = Some e" by simp
  qed
qed

theorem twin_symmetry_witness:
  "fromPolygons leftOn_xz example_mesh [0, 1, 2] = Some (Inr example_built) \<and>
   twin (halfedges example_built 2) = Some 4 \<and> twin (halfedges example_built 4) = Some 2"
proof -
  have t: "twin (halfedges example_built 2) = Some 4"
    by (simp add: example_built_def example_indexed_def example_built_heap_def mk_heap_def he_def linked_def)
  note sym = twin_symmetry[OF example_build example_mesh_edges example_mesh_fresh
      example_mesh_no_duplicates]
  from sym t have "twin (halfedges example_built 4) = Some 2" by blast
  with t example_build show ?thesis by simp
qed

section \<open>The navigation graph\<close>

lemma distanceTo_sym: "distanceTo a b = distanceTo b a"
  by (simp add: distanceTo_def squaredDistanceTo_def Let_def algebra_simps)

lemma gather_edge_None: "twin (h e) = None \<Longrightarrow> gather_edge h (acc, g) e = (acc, g)"
  by (simp add: gather_edge_def)

lemma gather_edge_Some:
  "twin (h e) = Some t \<Longrightarrow>
     gather_edge h (acc, g) e =
       (acc @ [nodeIndex (h e), nodeIndex (h t)],
        if hasNode g (nodeIndex (h e)) then g
        else addNode g \<lparr>index = nodeIndex (h e), position = from_v h e\<rparr>)"
  by (simp add: gather_edge_def)

lemma gather_edge_fst:
  "fst (foldl (gather_edge h) (acc, g) es) = acc @ exposed h es"
proof (induction es arbitrary: acc g)
  case Nil
  then show ?case by (simp add: exposed_def)
next
  case (Cons e es)
  show ?case
  proof (cases "twin (h e)")
    case None
    then show ?thesis using Cons.IH[of acc g] by (simp add: gather_edge_None exposed_def)
  next
    case (Some t)
    then show ?thesis
      using Cons.IH[of "acc @ [nodeIndex (h e), nodeIndex (h t)]"]
      by (simp add: gather_edge_Some exposed_def)
  qed
qed

lemma gather_edge_edges:
  "g_edges (snd (foldl (gather_edge h) (acc, g) es)) = g_edges g \<and>
   digraph (snd (foldl (gather_edge h) (acc, g) es)) = digraph g"
proof (induction es arbitrary: acc g)
  case Nil
  then show ?case by simp
next
  case (Cons e es)
  show ?case
    by (cases "twin (h e)") (simp_all add: gather_edge_None gather_edge_Some Cons.IH addNode_def)
qed

lemma gather_regions_result:
  "gather_regions h ps (acc, g) rs = Some (ils, g') \<Longrightarrow>
     g_edges g' = g_edges g \<and>
     (\<exists>ess. length ess = length rs \<and>
        (\<forall>k < length rs. cycle h (edge (ps (rs ! k))) = Some (ess ! k)) \<and>
        ils = acc @ map (exposed h) ess)"
proof (induction rs arbitrary: acc g)
  case Nil
  then show ?case by simp
next
  case (Cons r rs)
  from Cons.prems obtain es where es: "cycle h (edge (ps r)) = Some es"
    by (auto split: option.splits)
  let ?f = "foldl (gather_edge h) ([], g) es"
  from Cons.prems es have rec: "gather_regions h ps (acc @ [fst ?f], snd ?f) rs = Some (ils, g')"
    by (simp add: case_prod_beta)
  from Cons.IH[OF rec] obtain ess where
    e: "g_edges g' = g_edges (snd ?f)" and len: "length ess = length rs" and
    cyc: "\<forall>k < length rs. cycle h (edge (ps (rs ! k))) = Some (ess ! k)" and
    l: "ils = (acc @ [fst ?f]) @ map (exposed h) ess"
    by blast
  have f: "fst ?f = exposed h es" using gather_edge_fst[of h "[]" g es] by simp
  have "\<forall>k < length (r # rs). cycle h (edge (ps ((r # rs) ! k))) = Some ((es # ess) ! k)"
    using es cyc by (auto simp: nth_Cons split: nat.splits)
  moreover have "ils = acc @ map (exposed h) (es # ess)" using l f by simp
  moreover have "g_edges g' = g_edges g" using e gather_edge_edges[of h "[]" g es] by simp
  ultimately show ?case using len by (intro conjI exI[of _ "es # ess"]) auto
qed

lemma grows_refl [simp]: "grows g g"
  by (simp add: grows_def)

lemma grows_trans: "grows g g' \<Longrightarrow> grows g' g'' \<Longrightarrow> grows g g''"
  by (auto simp: grows_def)

lemma nav_edge_mono: "grows g g' \<Longrightarrow> nav_edge g i j \<Longrightarrow> nav_edge g' i j"
  unfolding grows_def nav_edge_def getNode_def by (metis subsetD)

lemma hasEdge_nav_edge: "costs_ok g \<Longrightarrow> hasEdge g f t \<Longrightarrow> nav_edge g f t"
  unfolding costs_ok_def hasEdge_def list_ex_iff by blast

lemma getNode_nodes: "g_nodes g' = g_nodes g \<Longrightarrow> getNode g' i = getNode g i"
  by (simp add: getNode_def)

lemma nav_edgeI:
  "getNode g i = Some ni \<Longrightarrow> getNode g j = Some nj \<Longrightarrow> ed \<in> set (g_edges g) \<Longrightarrow>
     e_from ed = i \<Longrightarrow> e_to ed = j \<Longrightarrow> cost ed = distanceTo (position ni) (position nj) \<Longrightarrow>
     nav_edge g i j"
  unfolding nav_edge_def by blast

lemma addEdge_nodes [simp]: "g_nodes (addEdge g e) = g_nodes g"
  by (simp add: addEdge_def)

lemma addEdge_edges:
  "set (g_edges (addEdge g e)) =
     set (g_edges g) \<union> (if digraph g then {e} else {e, \<lparr>e_from = e_to e, e_to = e_from e, cost = cost e\<rparr>})"
  by (auto simp: addEdge_def)

lemma connect_grows:
  assumes "connect g f t = Inr g'"
  shows "grows g g' \<and> (costs_ok g \<longrightarrow> f \<noteq> t \<longrightarrow> nav_edge g' f t)"
proof (cases "f \<noteq> t \<and> \<not> hasEdge g f t")
  case False
  with assms have "g' = g" by (simp add: connect_def)
  with False show ?thesis using hasEdge_nav_edge[of g f t] by auto
next
  case True
  with assms obtain nf nt where
    nf: "getNode g f = Some nf" and nt: "getNode g t = Some nt" and
    g': "g' = addEdge g \<lparr>e_from = f, e_to = t, cost = distanceTo (position nf) (position nt)\<rparr>"
    by (auto simp: connect_def split: option.splits)
  let ?e = "\<lparr>e_from = f, e_to = t, cost = distanceTo (position nf) (position nt)\<rparr>"
  let ?r = "\<lparr>e_from = t, e_to = f, cost = distanceTo (position nf) (position nt)\<rparr>"
  have nodes: "g_nodes g' = g_nodes g" by (simp add: g')
  have edges: "set (g_edges g') = set (g_edges g) \<union> (if digraph g then {?e} else {?e, ?r})"
    by (simp add: g' addEdge_edges)
  have nf': "getNode g' f = Some nf" and nt': "getNode g' t = Some nt"
    using nf nt by (simp_all add: getNode_nodes[OF nodes])
  have new: "nav_edge g' f t"
    by (rule nav_edgeI[OF nf' nt', of ?e]) (simp_all add: edges)
  have newrev: "nav_edge g' t f" if "\<not> digraph g"
    by (rule nav_edgeI[OF nt' nf', of ?r]) (simp_all add: edges that distanceTo_sym[of "position nf"])
  have old: "nav_edge g' i j" if "nav_edge g i j" for i j
  proof -
    from that obtain ni nj ed where
      "getNode g i = Some ni" "getNode g j = Some nj" "ed \<in> set (g_edges g)"
      "e_from ed = i" "e_to ed = j" "cost ed = distanceTo (position ni) (position nj)"
      unfolding nav_edge_def by blast
    then show ?thesis
      by (intro nav_edgeI[of g' i ni j nj ed]) (simp_all add: getNode_nodes[OF nodes] edges)
  qed
  have "costs_ok g'" if c: "costs_ok g"
    unfolding costs_ok_def
  proof
    fix ed assume "ed \<in> set (g_edges g')"
    then consider "ed \<in> set (g_edges g)" | "ed = ?e" | "\<not> digraph g" "ed = ?r"
      unfolding edges by (cases "digraph g") auto
    then show "nav_edge g' (e_from ed) (e_to ed)"
    proof cases
      case 1
      with c have "nav_edge g (e_from ed) (e_to ed)" by (simp add: costs_ok_def)
      then show ?thesis by (rule old)
    next
      case 2
      then show ?thesis using new by simp
    next
      case 3
      then show ?thesis using newrev by simp
    qed
  qed
  moreover have "set (g_edges g) \<subseteq> set (g_edges g')" unfolding edges by blast
  ultimately show ?thesis using nodes new by (simp add: grows_def)
qed

lemma grows_costs: "grows g g' \<Longrightarrow> costs_ok g \<Longrightarrow> costs_ok g'"
  by (simp add: grows_def)

lemma connect_to_grows:
  "connect_to g f ts = Inr g' \<Longrightarrow>
     grows g g' \<and> (costs_ok g \<longrightarrow> (\<forall>t \<in> set ts. f \<noteq> t \<longrightarrow> nav_edge g' f t))"
proof (induction ts arbitrary: g)
  case Nil
  then show ?case by simp
next
  case (Cons t ts)
  from Cons.prems obtain g1 where
    c: "connect g f t = Inr g1" and r: "connect_to g1 f ts = Inr g'"
    by (auto split: sum.splits)
  from connect_grows[OF c] have g1: "grows g g1" and e1: "costs_ok g \<Longrightarrow> f \<noteq> t \<Longrightarrow> nav_edge g1 f t"
    by simp_all
  from Cons.IH[OF r] have g2: "grows g1 g'" and
    e2: "costs_ok g1 \<Longrightarrow> \<forall>t \<in> set ts. f \<noteq> t \<longrightarrow> nav_edge g' f t"
    by simp_all
  have "\<forall>u \<in> set (t # ts). f \<noteq> u \<longrightarrow> nav_edge g' f u" if c: "costs_ok g"
    using e1[OF c] e2[OF grows_costs[OF g1 c]] nav_edge_mono[OF g2] by auto
  with grows_trans[OF g1 g2] show ?case by blast
qed

lemma connect_from_grows:
  "connect_from g fs ts = Inr g' \<Longrightarrow>
     grows g g' \<and> (costs_ok g \<longrightarrow> (\<forall>f \<in> set fs. \<forall>t \<in> set ts. f \<noteq> t \<longrightarrow> nav_edge g' f t))"
proof (induction fs arbitrary: g)
  case Nil
  then show ?case by simp
next
  case (Cons f fs)
  from Cons.prems obtain g1 where
    c: "connect_to g f ts = Inr g1" and r: "connect_from g1 fs ts = Inr g'"
    by (auto split: sum.splits)
  from connect_to_grows[OF c] have g1: "grows g g1" and
    e1: "costs_ok g \<Longrightarrow> \<forall>t \<in> set ts. f \<noteq> t \<longrightarrow> nav_edge g1 f t"
    by simp_all
  from Cons.IH[OF r] have g2: "grows g1 g'" and
    e2: "costs_ok g1 \<Longrightarrow> \<forall>f \<in> set fs. \<forall>t \<in> set ts. f \<noteq> t \<longrightarrow> nav_edge g' f t"
    by simp_all
  have "\<forall>u \<in> set (f # fs). \<forall>t \<in> set ts. u \<noteq> t \<longrightarrow> nav_edge g' u t" if c: "costs_ok g"
    using e1[OF c] e2[OF grows_costs[OF g1 c]] nav_edge_mono[OF g2] by auto
  with grows_trans[OF g1 g2] show ?case by blast
qed

lemma connect_all_grows:
  "connect_all g ls = Inr g' \<Longrightarrow>
     grows g g' \<and>
     (costs_ok g \<longrightarrow> (\<forall>l \<in> set ls. \<forall>f \<in> set l. \<forall>t \<in> set l. f \<noteq> t \<longrightarrow> nav_edge g' f t))"
proof (induction ls arbitrary: g)
  case Nil
  then show ?case by simp
next
  case (Cons l ls)
  from Cons.prems obtain g1 where
    c: "connect_from g l l = Inr g1" and r: "connect_all g1 ls = Inr g'"
    by (auto split: sum.splits)
  from connect_from_grows[OF c] have g1: "grows g g1" and
    e1: "costs_ok g \<Longrightarrow> \<forall>f \<in> set l. \<forall>t \<in> set l. f \<noteq> t \<longrightarrow> nav_edge g1 f t"
    by simp_all
  from Cons.IH[OF r] have g2: "grows g1 g'" and
    e2: "costs_ok g1 \<Longrightarrow> \<forall>l \<in> set ls. \<forall>f \<in> set l. \<forall>t \<in> set l. f \<noteq> t \<longrightarrow> nav_edge g' f t"
    by simp_all
  have "\<forall>k \<in> set (l # ls). \<forall>f \<in> set k. \<forall>t \<in> set k. f \<noteq> t \<longrightarrow> nav_edge g' f t" if c: "costs_ok g"
    using e1[OF c] e2[OF grows_costs[OF g1 c]] nav_edge_mono[OF g2] by auto
  with grows_trans[OF g1 g2] show ?case by blast
qed

lemma costs_ok_no_edges: "g_edges g = [] \<Longrightarrow> costs_ok g"
  by (simp add: costs_ok_def)

lemma buildGraph_connects:
  assumes bg: "buildGraph s = Some (Inr s')" and empty: "g_edges (navgraph s) = []"
      and r: "r \<in> set (regions s)"
  shows "\<exists>es. cycle (halfedges s) (edge (polys s r)) = Some es \<and>
          (\<forall>i \<in> set (exposed (halfedges s) es). \<forall>j \<in> set (exposed (halfedges s) es).
              i \<noteq> j \<longrightarrow> nav_edge (navgraph s') i j)"
proof -
  from bg obtain ils g1 where
    ga: "gather_regions (halfedges s) (polys s) ([], navgraph s) (regions s) = Some (ils, g1)" and
    co: "connect_all g1 ils = Inr (navgraph s')"
    by (auto simp: buildGraph_def split: option.splits sum.splits prod.splits)
  from gather_regions_result[OF ga] obtain ess where
    e1: "g_edges g1 = g_edges (navgraph s)" and len: "length ess = length (regions s)" and
    cyc: "\<forall>k < length (regions s). cycle (halfedges s) (edge (polys s (regions s ! k))) = Some (ess ! k)" and
    ils: "ils = map (exposed (halfedges s)) ess"
    by auto
  from r obtain k where k: "k < length (regions s)" "regions s ! k = r"
    by (auto simp: in_set_conv_nth)
  with cyc have c: "cycle (halfedges s) (edge (polys s r)) = Some (ess ! k)" by auto
  have mem: "exposed (halfedges s) (ess ! k) \<in> set ils"
    using k len by (simp add: ils)
  have ok: "costs_ok g1" using e1 empty by (simp add: costs_ok_no_edges)
  from connect_all_grows[OF co] ok mem
  have "\<forall>i \<in> set (exposed (halfedges s) (ess ! k)). \<forall>j \<in> set (exposed (halfedges s) (ess ! k)).
              i \<noteq> j \<longrightarrow> nav_edge (navgraph s') i j"
    by blast
  with c show ?thesis by blast
qed

lemma fromPolygons_graph_cleared:
  assumes "fromPolygons leftOn s polygons = Some (Inr s')"
  obtains s3 where "buildGraph s3 = Some (Inr s')" "g_edges (navgraph s3) = []" "g_nodes (navgraph s3) = []"
proof -
  from assms obtain L rs h w s2 s3 where
    br: "buildRegions leftOn ((clear s)\<lparr>halfedges := h, regions := rs\<rparr>) (sort_by descending w) = Some (Inr s2)" and
    bn: "buildNodeIndices s2 = Some s3" and
    bg: "buildGraph s3 = Some (Inr s')"
    by (rule fromPolygons_phases)
  from buildRegions_frame[OF br] buildNodeIndices_frame[OF bn]
  have "navgraph s3 = graph_clear (navgraph s)"
    by (simp add: clear_def)
  then have "g_edges (navgraph s3) = []" "g_nodes (navgraph s3) = []" by (simp_all add: graph_clear_def)
  with bg show ?thesis by (rule that)
qed

text \<open>
  Claim C3. After a build, for every region and every ordered pair \<open>(i, j)\<close> of distinct
  node indices exposed by the region's twin-bearing boundary edges, the navigation graph
  has an edge from \<open>i\<close> to \<open>j\<close> and an edge from \<open>j\<close> to \<open>i\<close>, each with cost equal to the
  Euclidean distance between the positions of the nodes \<open>i\<close> and \<open>j\<close>.
\<close>

theorem intra_region_connectivity:
  assumes build: "fromPolygons leftOn s polygons = Some (Inr s')"
      and r: "r \<in> set (regions s')"
  shows "\<exists>es. cycle (halfedges s') (edge (polys s' r)) = Some es \<and>
          (\<forall>i \<in> set (exposed (halfedges s') es). \<forall>j \<in> set (exposed (halfedges s') es).
              i \<noteq> j \<longrightarrow> nav_edge (navgraph s') i j \<and> nav_edge (navgraph s') j i)"
proof -
  from build obtain s3 where bg: "buildGraph s3 = Some (Inr s')" and empty: "g_edges (navgraph s3) = []"
    by (rule fromPolygons_graph_cleared)
  from buildGraph_frame[OF bg] have same: "halfedges s' = halfedges s3" "polys s' = polys s3"
    "regions s' = regions s3" by simp_all
  from r have "r \<in> set (regions s3)" by (simp add: same)
  from buildGraph_connects[OF bg empty this] obtain es where
    c: "cycle (halfedges s3) (edge (polys s3 r)) = Some es" and
    n: "\<forall>i \<in> set (exposed (halfedges s3) es). \<forall>j \<in> set (exposed (halfedges s3) es).
              i \<noteq> j \<longrightarrow> nav_edge (navgraph s') i j"
    by blast
  from n have "\<forall>i \<in> set (exposed (halfedges s3) es). \<forall>j \<in> set (exposed (halfedges s3) es).
              i \<noteq> j \<longrightarrow> nav_edge (navgraph s') i j \<and> nav_edge (navgraph s') j i"
    by (metis (no_types))
  with c show ?thesis unfolding same by blast
qed

theorem intra_region_connectivity_witness:
  "fromPolygons leftOn_xz example_mesh [0, 1, 2] = Some (Inr example_built) \<and>
   cycle (halfedges example_built) (edge (polys example_built 0)) = Some [2, 3, 0, 1] \<and>
   exposed (halfedges example_built) [2, 3, 0, 1] = [0, 2, 1, 0] \<and>
   nav_edge (navgraph example_built) 2 1 \<and> nav_edge (navgraph example_built) 1 2"
proof -
  have r: "0 \<in> set (regions example_built)"
    by (simp add: example_built_def example_indexed_def)
  have ex: "exposed (halfedges example_built) [2, 3, 0, 1] = [0, 2, 1, 0]"
    by (simp add: exposed_def example_built_def example_indexed_def example_built_heap_def mk_heap_def
        he_def linked_def)
  from intra_region_connectivity[OF example_build r] example_built_cycles(1)
  have "\<forall>i \<in> set (exposed (halfedges example_built) [2, 3, 0, 1]).
          \<forall>j \<in> set (exposed (halfedges example_built) [2, 3, 0, 1]).
            i \<noteq> j \<longrightarrow> nav_edge (navgraph example_built) i j \<and> nav_edge (navgraph example_built) j i"
    by simp
  then have "nav_edge (navgraph example_built) 2 1 \<and> nav_edge (navgraph example_built) 1 2"
    unfolding ex by simp
  with example_build example_built_cycles(1) ex show ?thesis by simp
qed

section \<open>Node indices\<close>

lemma geoD1: "geo h \<Longrightarrow> to_v h (prev (h e)) = from_v h e"
  unfolding geo_def by blast

lemma geoD2: "geo h \<Longrightarrow> twin (h e) = Some t \<Longrightarrow> to_v h t = from_v h e \<and> to_v h e = from_v h t"
  unfolding geo_def by blast

lemma geo_cong:
  assumes "geo h"
      and "\<And>x. twin (h' x) = twin (h x)" "\<And>x. prev (h' x) = prev (h x)"
      and "to_v h' = to_v h" "from_v h' = from_v h"
  shows "geo h'"
  using assms unfolding geo_def by simp

lemma splice_to_v:
  assumes g: "geo h" and tw: "twin (h c) = Some t"
  shows "to_v (splice h c t) = to_v h"
proof (rule ext)
  fix x
  have a1: "to_v h (prev (h c)) = from_v h c" and a2: "to_v h (prev (h t)) = from_v h t"
    using geoD1[OF g] by simp_all
  have a3: "to_v h t = from_v h c" and a4: "to_v h c = from_v h t"
    using geoD2[OF g tw] by simp_all
  have v: "to_v (splice h c t) x = vertex (h (next (splice h c t x)))"
    by (simp add: to_v_def)
  consider "x = prev (h t)" "prev (h c) = c" | "x = prev (h t)" "prev (h c) \<noteq> c"
    | "x \<noteq> prev (h t)" "x = prev (h c)" | "x \<noteq> prev (h t)" "x \<noteq> prev (h c)"
    by blast
  then show "to_v (splice h c t) x = to_v h x"
  proof cases
    case 1
    have "vertex (h (next (h t))) = from_v h c" using a3 by (simp add: to_v_def)
    also have "\<dots> = to_v h c" using a1 1 by simp
    also have "\<dots> = to_v h x" using a4 a2 1 by simp
    finally show ?thesis unfolding v using 1 by (simp add: splice_next)
  next
    case 2
    have "vertex (h (next (h c))) = to_v h x" using a4 a2 2 by (simp add: to_v_def)
    then show ?thesis unfolding v using 2 by (simp add: splice_next)
  next
    case 3
    have "vertex (h (next (h t))) = to_v h x" using a3 a1 3 by (simp add: to_v_def)
    then show ?thesis unfolding v using 3 by (simp add: splice_next)
  next
    case 4
    then show ?thesis unfolding v by (simp add: splice_next to_v_def)
  qed
qed

lemma splice_from_v [simp]: "from_v (splice h c t) = from_v h"
  by (simp add: from_v_def fun_eq_iff)

lemma geo_splice:
  assumes g: "geo h" and tw: "twin (h c) = Some t"
  shows "geo (splice h c t)"
  unfolding geo_def
proof (intro conjI allI impI)
  have a1: "to_v h (prev (h c)) = from_v h c" and a2: "to_v h (prev (h t)) = from_v h t"
    using geoD1[OF g] by simp_all
  have a3: "to_v h t = from_v h c" and a4: "to_v h c = from_v h t"
    using geoD2[OF g tw] by simp_all
  fix e
  define n' where "n' = (if prev (h c) = c then next (h t) else next (h c))"
  define tn' where "tn' = (if prev (h t) = t then n' else next (h t))"
  define p' where "p' = (if c = n' then prev (h t) else prev (h c))"
  have pr: "prev (splice h c t e) = (if e = tn' then p' else if e = n' then prev (h t) else prev (h e))"
    by (simp add: splice_prev n'_def tn'_def p'_def Let_def)
  have fn': "from_v h n' = from_v h t"
  proof (cases "prev (h c) = c")
    case True
    then have "to_v h c = from_v h c" using a1 by simp
    then show ?thesis using True a3 a4 by (simp add: n'_def to_v_def from_v_def)
  next
    case False
    then show ?thesis using a4 by (simp add: n'_def to_v_def from_v_def)
  qed
  have ftn': "from_v h tn' = from_v h c"
  proof (cases "prev (h t) = t")
    case True
    then have "to_v h t = from_v h t" using a2 by simp
    then show ?thesis using True a3 fn' by (simp add: tn'_def)
  next
    case False
    then show ?thesis using a3 by (simp add: tn'_def to_v_def from_v_def)
  qed
  have tp': "to_v h p' = from_v h c"
  proof (cases "c = n'")
    case True
    then show ?thesis using fn' a2 by (simp add: p'_def)
  next
    case False
    then show ?thesis using a1 by (simp add: p'_def)
  qed
  show "to_v (splice h c t) (prev (splice h c t e)) = from_v (splice h c t) e"
    unfolding splice_to_v[OF g tw] splice_from_v pr
    using ftn' tp' fn' a2 geoD1[OF g, of e] by simp
next
  fix e u assume "twin (splice h c t e) = Some u"
  then have "twin (h e) = Some u" by simp
  from geoD2[OF g this]
  show "to_v (splice h c t) u = from_v (splice h c t) e" "to_v (splice h c t) e = from_v (splice h c t) u"
    unfolding splice_to_v[OF g tw] splice_from_v by simp_all
qed

lemma geo_restore:
  assumes g: "geo h" and tw: "twin (h c) = Some t"
  shows "geo (restore (splice h c t) c t (prev (h c)) (next (h c)) (prev (h t)) (next (h t)))"
    (is "geo ?r")
proof -
  let ?h4 = "splice h c t"
  have g4: "geo ?h4" by (rule geo_splice[OF g tw])
  have t4: "to_v ?h4 = to_v h" by (rule splice_to_v[OF g tw])
  have a1: "to_v h (prev (h c)) = from_v h c" and a2: "to_v h (prev (h t)) = from_v h t"
    using geoD1[OF g] by simp_all
  have fr: "from_v ?r = from_v h" by (simp add: from_v_def fun_eq_iff)
  have tr: "to_v ?r = to_v h"
  proof (rule ext)
    fix x
    have v: "to_v ?r x = vertex (h (next (?r x)))" by (simp add: to_v_def)
    consider "x = prev (h t)" | "x \<noteq> prev (h t)" "x = prev (h c)"
      | "x \<noteq> prev (h t)" "x \<noteq> prev (h c)" by blast
    then show "to_v ?r x = to_v h x"
    proof cases
      case 1
      then show ?thesis unfolding v using a2 by (simp add: from_v_def)
    next
      case 2
      then show ?thesis unfolding v using a1 by (simp add: from_v_def)
    next
      case 3
      have "to_v ?h4 x = to_v h x" by (simp add: t4)
      then show ?thesis unfolding v using 3 by (simp add: to_v_def)
    qed
  qed
  show ?thesis
    unfolding geo_def tr fr
  proof (intro conjI allI impI)
    fix e
    consider "e = next (h t)" | "e \<noteq> next (h t)" "e = next (h c)"
      | "e \<noteq> next (h t)" "e \<noteq> next (h c)" by blast
    then show "to_v h (prev (?r e)) = from_v h e"
    proof cases
      case 1
      then show ?thesis by (simp add: to_v_def from_v_def)
    next
      case 2
      then show ?thesis by (simp add: to_v_def from_v_def)
    next
      case 3
      have "to_v ?h4 (prev (?h4 e)) = from_v ?h4 e" by (rule geoD1[OF g4])
      then show ?thesis using 3 by (simp add: t4)
    qed
  next
    fix e u assume "twin (?r e) = Some u"
    then have "twin (h e) = Some u" by simp
    from geoD2[OF g this] show "to_v h u = from_v h e" "to_v h e = from_v h u" by simp_all
  qed
qed

lemma geo_relabel: "geo h \<Longrightarrow> geo (foldl (\<lambda>hh e. set_polygon e pg hh) h es)"
  by (erule geo_cong) (simp_all add: to_v_def from_v_def fun_eq_iff)

lemma merge_candidate_geo:
  assumes g: "geo (halfedges s)" and m: "merge_candidate leftOn s c = Some (Inr s')"
  shows "geo (halfedges s')"
proof -
  from m obtain t where tw: "twin (halfedges s c) = Some t"
    by (cases "twin (halfedges s c)") (simp_all add: merge_candidate_def)
  from m tw consider es where "halfedges s' = foldl (\<lambda>hh e. set_polygon e (polygon (splice (halfedges s) c t c)) hh) (splice (halfedges s) c t) es"
    | "halfedges s' = restore (splice (halfedges s) c t) c t (prev (halfedges s c)) (next (halfedges s c))
          (prev (halfedges s t)) (next (halfedges s t))"
    by (auto simp: merge_candidate_def Let_def split: option.splits bool.splits)
  then show ?thesis
  proof cases
    case 1
    then show ?thesis using geo_relabel[OF geo_splice[OF g tw]] by simp
  next
    case 2
    then show ?thesis using geo_restore[OF g tw] by simp
  qed
qed

lemma merge_all_geo:
  "geo (halfedges s) \<Longrightarrow> merge_all leftOn s es = Some (Inr s') \<Longrightarrow> geo (halfedges s')"
proof (induction es arbitrary: s)
  case Nil
  then show ?case by simp
next
  case (Cons en es)
  from Cons.prems(2) obtain s1 where
    m: "merge_candidate leftOn s (snd en) = Some (Inr s1)" and r: "merge_all leftOn s1 es = Some (Inr s')"
    by (auto split: option.splits sum.splits)
  from Cons.IH[OF merge_candidate_geo[OF Cons.prems(1) m] r] show ?case .
qed

lemma buildRegions_geo:
  assumes "geo (halfedges s)" and "buildRegions leftOn s es = Some (Inr s')"
  shows "geo (halfedges s')"
proof -
  from assms(2) obtain s1 where m: "merge_all leftOn s es = Some (Inr s1)"
    and c: "centroids s1 (regions s1) = Some s'"
    by (auto simp: buildRegions_def split: option.splits sum.splits)
  from merge_all_geo[OF assms(1) m] centroids_frame[OF c] show ?thesis by simp
qed

lemma matchedD1:
  "matched h0 h \<Longrightarrow> vertex (h x) = vertex (h0 x) \<and> next (h x) = next (h0 x) \<and> prev (h x) = prev (h0 x)"
  unfolding matched_def by blast

lemma matchedD2: "matched h0 h \<Longrightarrow> twin (h e) = Some t \<Longrightarrow> is_twin_of h0 e t \<and> is_twin_of h0 t e"
  unfolding matched_def by blast

lemma link_twin_matched:
  assumes "matched h0 h"
  shows "matched h0 (fst (link_twin L (h, w) e0))"
proof (cases "twin (h e0)")
  case (Some a)
  then show ?thesis using assms by (simp add: link_twin_def)
next
  case None
  note free0 = None
  have same: "is_twin_of h = is_twin_of h0"
    using matchedD1[OF assms] by (intro is_twin_of_cong) simp_all
  show ?thesis
  proof (cases "find (is_twin_of h0 e0) L")
    case None
    then show ?thesis using assms free0 by (simp add: link_twin_def same)
  next
    case (Some e1)
    then have m: "is_twin_of h0 e0 e1" by (auto simp: find_Some_iff)
    then have m': "is_twin_of h0 e1 e0" by (rule is_twin_of_sym)
    have res: "fst (link_twin L (h, w) e0) = set_twin e1 e0 (set_twin e0 e1 h)"
      using free0 Some by (simp add: link_twin_def same Let_def)
    show ?thesis
      unfolding res matched_def
    proof (intro conjI allI impI)
      fix x
      show "vertex (set_twin e1 e0 (set_twin e0 e1 h) x) = vertex (h0 x)"
        "next (set_twin e1 e0 (set_twin e0 e1 h) x) = next (h0 x)"
        "prev (set_twin e1 e0 (set_twin e0 e1 h) x) = prev (h0 x)"
        using matchedD1[OF assms] by simp_all
    next
      fix e t assume a: "twin (set_twin e1 e0 (set_twin e0 e1 h) e) = Some t"
      then consider "e = e1" "t = e0" | "e = e0" "t = e1" | "twin (h e) = Some t"
        by (cases "e = e1"; cases "e = e0"; simp)
      then have "is_twin_of h0 e t \<and> is_twin_of h0 t e"
      proof cases
        case 1
        show ?thesis unfolding 1 using m m' by blast
      next
        case 2
        show ?thesis unfolding 2 using m m' by blast
      next
        case 3
        from matchedD2[OF assms this] show ?thesis .
      qed
      then show "is_twin_of h0 e t" "is_twin_of h0 t e" by simp_all
    qed
  qed
qed

lemma link_twins_fold_matched:
  "matched h0 (fst hw) \<Longrightarrow> matched h0 (fst (foldl (link_twin L) hw es))"
proof (induction es arbitrary: hw)
  case Nil
  then show ?case by simp
next
  case (Cons e es)
  obtain h w where hw: "hw = (h, w)" by (cases hw)
  from Cons.prems have "matched h0 (fst (link_twin L (h, w) e))"
    by (intro link_twin_matched) (simp add: hw)
  with Cons.IH show ?case by (simp add: hw)
qed

lemma link_twins_geo:
  assumes wired: "\<forall>e. next (h (prev (h e))) = e" and fresh: "\<forall>e. twin (h e) = None"
  shows "geo (fst (link_twins h L))"
proof -
  let ?h = "fst (link_twins h L)"
  have "matched h h" using fresh by (simp add: matched_def)
  then have m: "matched h ?h" unfolding link_twins_def by (intro link_twins_fold_matched) simp
  have f: "from_v ?h = from_v h" "to_v ?h = to_v h" and p: "\<And>x. prev (?h x) = prev (h x)"
    using matchedD1[OF m] by (simp_all add: from_v_def to_v_def fun_eq_iff)
  show ?thesis
    unfolding geo_def f p
  proof (intro conjI allI impI)
    fix e show "to_v h (prev (h e)) = from_v h e"
      using wired by (simp add: to_v_def from_v_def)
  next
    fix e t assume "twin (?h e) = Some t"
    from matchedD2[OF m this] have "is_twin_of h e t" by simp
    then show "to_v h t = from_v h e" "to_v h e = from_v h t"
      by (simp_all add: is_twin_of_def)
  qed
qed

lemma first_seen_snoc:
  "first_seen (xs @ [x]) = (if x \<in> set (first_seen xs) then first_seen xs else first_seen xs @ [x])"
  by (simp add: first_seen_def)

lemma first_seen_Nil [simp]: "first_seen [] = []"
  by (simp add: first_seen_def)

lemma set_first_seen [simp]: "set (first_seen xs) = set xs"
  by (induction xs rule: rev_induct) (auto simp: first_seen_snoc)

lemma distinct_first_seen [simp]: "distinct (first_seen xs)"
  by (induction xs rule: rev_induct) (auto simp: first_seen_snoc)

lemma index_of_append_in: "q \<in> set xs \<Longrightarrow> index_of (xs @ ys) q = index_of xs q"
  by (simp add: index_of_def)

lemma index_of_snoc_new: "q \<notin> set xs \<Longrightarrow> index_of (xs @ [q]) q = length xs"
  by (induction xs) (auto simp: index_of_def)

lemma find_snoc:
  "find P (xs @ [x]) = (case find P xs of None \<Rightarrow> (if P x then Some x else None) | Some y \<Rightarrow> Some y)"
  by (induction xs) auto

lemma boundaries_of_cong: "cycle h' = cycle h \<Longrightarrow> boundaries_of h' ps rs = boundaries_of h ps rs"
proof (induction rs)
  case Nil
  then show ?case by simp
next
  case (Cons r rs)
  from Cons.IH[OF Cons.prems] show ?case by (simp add: Cons.prems split: option.splits)
qed

lemma index_regions_boundaries:
  "index_regions ps st rs = Some st' \<Longrightarrow>
     \<exists>bs. boundaries_of (fst st) ps rs = Some bs \<and> st' = foldl index_edge st bs"
proof (induction rs arbitrary: st)
  case Nil
  then show ?case by simp
next
  case (Cons r rs)
  from Cons.prems obtain es where es: "cycle (fst st) (edge (ps r)) = Some es"
    and rec: "index_regions ps (foldl index_edge st es) rs = Some st'"
    by (auto split: option.splits)
  from Cons.IH[OF rec] obtain bs where
    b: "boundaries_of (fst (foldl index_edge st es)) ps rs = Some bs" and
    s: "st' = foldl index_edge (foldl index_edge st es) bs"
    by blast
  have "cycle (fst (foldl index_edge st es)) = cycle (fst st)"
    by (rule same_links_cycle[OF index_fold_frame])
  from boundaries_of_cong[OF this] b have "boundaries_of (fst st) ps rs = Some bs" by simp
  with es s show ?case by simp
qed

lemma index_edge_None: "twin (h e) = None \<Longrightarrow> index_edge (h, m, n) e = (h, m, n)"
  by (simp add: index_edge_def)

lemma index_edge_Some:
  "twin (h e) = Some t \<Longrightarrow>
     index_edge (h, m, n) e =
       (let found = lookup_index m (from_v h e); ni = (if found = - 1 then n else found)
        in (set_nodeIndex (next (h t)) ni (set_nodeIndex e ni h),
            if found = - 1 then m @ [(n, from_v h e)] else m,
            if found = - 1 then n + 1 else n))"
  by (simp add: index_edge_def Let_def)

lemma indexedI:
  assumes "same_links h0 h"
      and "n = int (length (first_seen (map (from_v h0) (filter (\<lambda>e. twin (h0 e) \<noteq> None) visited))))"
      and "\<And>q. find (\<lambda>ip. equals q (snd ip)) m =
                (if q \<in> set (first_seen (map (from_v h0) (filter (\<lambda>e. twin (h0 e) \<noteq> None) visited)))
                 then Some (int (index_of (first_seen (map (from_v h0) (filter (\<lambda>e. twin (h0 e) \<noteq> None) visited))) q), q)
                 else None)"
      and "\<And>e. e \<in> set visited \<Longrightarrow> twin (h0 e) \<noteq> None \<Longrightarrow>
             nodeIndex (h e) = int (index_of (first_seen (map (from_v h0) (filter (\<lambda>e. twin (h0 e) \<noteq> None) visited))) (from_v h0 e))"
      and "\<And>e t. e \<in> set visited \<Longrightarrow> twin (h0 e) = Some t \<Longrightarrow>
             nodeIndex (h (next (h0 t))) = int (index_of (first_seen (map (from_v h0) (filter (\<lambda>e. twin (h0 e) \<noteq> None) visited))) (from_v h0 e))"
  shows "indexed h0 visited (h, m, n)"
  unfolding indexed_def Let_def using assms by auto

lemma indexedD:
  assumes "indexed h0 visited (h, m, n)"
  defines "seen \<equiv> first_seen (map (from_v h0) (filter (\<lambda>e. twin (h0 e) \<noteq> None) visited))"
  shows "same_links h0 h" "n = int (length seen)"
    "find (\<lambda>ip. equals q (snd ip)) m = (if q \<in> set seen then Some (int (index_of seen q), q) else None)"
    "e \<in> set visited \<Longrightarrow> twin (h0 e) \<noteq> None \<Longrightarrow> nodeIndex (h e) = int (index_of seen (from_v h0 e))"
    "e \<in> set visited \<Longrightarrow> twin (h0 e) = Some t \<Longrightarrow>
       nodeIndex (h (next (h0 t))) = int (index_of seen (from_v h0 e))"
  using assms unfolding indexed_def Let_def by auto

lemma index_edge_indexed:
  assumes inv: "indexed h0 visited st"
      and H: "\<And>e t. twin (h0 e) = Some t \<Longrightarrow> from_v h0 (next (h0 t)) = from_v h0 e"
  shows "indexed h0 (visited @ [e]) (index_edge st e)"
proof -
  obtain h m n where st: "st = (h, m, n)" by (cases st) auto
  define tw where "tw = filter (\<lambda>e. twin (h0 e) \<noteq> None) visited"
  define seen where "seen = first_seen (map (from_v h0) tw)"
  note d = indexedD[OF inv[unfolded st], folded tw_def seen_def]
  have sl: "same_links h0 h" by (rule d(1))
  have fields: "twin (h x) = twin (h0 x)" "next (h x) = next (h0 x)" "vertex (h x) = vertex (h0 x)" for x
    using sl by (simp_all add: same_links_def)
  have fr: "from_v h = from_v h0" by (simp add: from_v_def fun_eq_iff fields)
  show ?thesis
  proof (cases "twin (h0 e)")
    case None
    then have "index_edge st e = st" by (simp add: st index_edge_None fields)
    moreover have "filter (\<lambda>e. twin (h0 e) \<noteq> None) (visited @ [e]) = filter (\<lambda>e. twin (h0 e) \<noteq> None) visited"
      using None by simp
    ultimately show ?thesis using inv by (simp add: indexed_def)
  next
    case (Some t)
    define p where "p = from_v h0 e"
    define x where "x = next (h0 t)"
    define seen' where "seen' = (if p \<in> set seen then seen else seen @ [p])"
    define ni where "ni = int (index_of seen' p)"
    have tw': "filter (\<lambda>e. twin (h0 e) \<noteq> None) (visited @ [e]) = tw @ [e]"
      using Some by (simp add: tw_def)
    have seen'_eq: "first_seen (map (from_v h0) (tw @ [e])) = seen'"
      by (simp add: first_seen_snoc seen_def seen'_def p_def)
    have fx: "from_v h0 x = p" using H[OF Some] by (simp add: x_def p_def)
    have look: "lookup_index m p = (if p \<in> set seen then int (index_of seen p) else - 1)"
      using d(3)[of p] by (simp add: lookup_index_def)
    have old: "index_of seen' q = index_of seen q" if "q \<in> set seen" for q
      using that by (simp add: seen'_def index_of_append_in)
    have pin: "p \<in> set seen'" by (simp add: seen'_def)
    have ni_val: "(if lookup_index m p = - 1 then n else lookup_index m p) = ni"
    proof (cases "p \<in> set seen")
      case True
      then show ?thesis by (simp add: look ni_def seen'_def)
    next
      case False
      then show ?thesis using d(2) by (simp add: look ni_def seen'_def index_of_snoc_new)
    qed
    define h2 where "h2 = set_nodeIndex x ni (set_nodeIndex e ni h)"
    define m' where "m' = (if p \<in> set seen then m else m @ [(n, p)])"
    have res: "index_edge st e = (h2, m', int (length seen'))"
    proof (cases "p \<in> set seen")
      case True
      then have "lookup_index m p \<noteq> - 1" by (simp add: look)
      then show ?thesis
        using True ni_val d(2)
        by (simp add: st index_edge_Some[of h e t] fields Some fr Let_def h2_def m'_def x_def
            seen'_def p_def[symmetric])
    next
      case False
      then have "lookup_index m p = - 1" by (simp add: look)
      then show ?thesis
        using False ni_val d(2)
        by (simp add: st index_edge_Some[of h e t] fields Some fr Let_def h2_def m'_def x_def
            seen'_def p_def[symmetric])
    qed
    have ni2: "nodeIndex (h2 y) = (if y = x \<or> y = e then ni else nodeIndex (h y))" for y
      by (simp add: h2_def)
    have mem: "from_v h0 y \<in> set seen" if "y \<in> set visited" "twin (h0 y) \<noteq> None" for y
      using that by (simp add: seen_def tw_def)
    show ?thesis
      unfolding res
    proof (rule indexedI; (unfold tw' seen'_eq)?)
      show "same_links h0 h2" using sl by (simp add: same_links_def h2_def)
      show "int (length seen') = int (length seen')" by simp
    next
      fix q
      show "find (\<lambda>ip. equals q (snd ip)) m' = (if q \<in> set seen' then Some (int (index_of seen' q), q) else None)"
      proof (cases "p \<in> set seen")
        case True
        then show ?thesis using d(3)[of q] by (simp add: m'_def seen'_def)
      next
        case False
        show ?thesis
        proof (cases "q \<in> set seen")
          case True
          then show ?thesis using d(3)[of q] False old[OF True]
            by (simp add: m'_def find_snoc seen'_def)
        next
          case nq: False
          then have "find (\<lambda>ip. equals q (snd ip)) m = None" using d(3)[of q] by simp
          then show ?thesis using False nq d(2)
            by (auto simp: m'_def find_snoc seen'_def index_of_snoc_new)
        qed
      qed
    next
      fix y assume y: "y \<in> set (visited @ [e])" and ty: "twin (h0 y) \<noteq> None"
      show "nodeIndex (h2 y) = int (index_of seen' (from_v h0 y))"
      proof (cases "y = x \<or> y = e")
        case True
        then have "from_v h0 y = p" using fx by (auto simp: p_def)
        then show ?thesis using True by (simp add: ni2 ni_def)
      next
        case False
        with y have yv: "y \<in> set visited" by simp
        from d(4)[OF yv ty] old[OF mem[OF yv ty]] False show ?thesis by (simp add: ni2)
      qed
    next
      fix y u assume y: "y \<in> set (visited @ [e])" and ty: "twin (h0 y) = Some u"
      let ?z = "next (h0 u)"
      have fz: "from_v h0 ?z = from_v h0 y" by (rule H[OF ty])
      show "nodeIndex (h2 ?z) = int (index_of seen' (from_v h0 y))"
      proof (cases "?z = x \<or> ?z = e")
        case True
        then have "from_v h0 ?z = p" using fx by (auto simp: p_def)
        with fz have "from_v h0 y = p" by simp
        then show ?thesis using True by (simp add: ni2 ni_def)
      next
        case False
        have "y \<noteq> e" using False ty Some by (auto simp: x_def)
        with y have yv: "y \<in> set visited" by simp
        have ty': "twin (h0 y) \<noteq> None" using ty by simp
        from d(5)[OF yv ty] old[OF mem[OF yv ty']] False show ?thesis by (simp add: ni2)
      qed
    qed
  qed
qed

lemma index_fold_indexed:
  assumes "indexed h0 visited st"
      and H: "\<And>e t. twin (h0 e) = Some t \<Longrightarrow> from_v h0 (next (h0 t)) = from_v h0 e"
  shows "indexed h0 (visited @ es) (foldl index_edge st es)"
  using assms(1)
proof (induction es arbitrary: visited st)
  case Nil
  then show ?case by simp
next
  case (Cons e es)
  from index_edge_indexed[OF Cons.prems H] have "indexed h0 (visited @ [e]) (index_edge st e)" .
  from Cons.IH[OF this] show ?case by simp
qed

lemma indexed_start: "indexed h [] (h, [], 0)"
  by (rule indexedI) simp_all

lemma geo_twin_next: "geo h \<Longrightarrow> twin (h e) = Some t \<Longrightarrow> from_v h (next (h t)) = from_v h e"
  using geoD2[of h e t] by (simp add: to_v_def from_v_def)

lemma buildNodeIndices_indexed:
  assumes bn: "buildNodeIndices s = Some s'" and g: "geo (halfedges s)"
  shows "\<exists>bs m n. boundaries_of (halfedges s) (polys s) (regions s) = Some bs \<and>
           indexed (halfedges s) bs (halfedges s', m, n)"
proof -
  from bn obtain st where
    ir: "index_regions (polys s) (halfedges s, [], 0) (regions s) = Some st" and
    s': "s' = s\<lparr>halfedges := fst st\<rparr>"
    by (auto simp: buildNodeIndices_def)
  from index_regions_boundaries[OF ir] obtain bs where
    b: "boundaries_of (halfedges s) (polys s) (regions s) = Some bs" and
    st: "st = foldl index_edge (halfedges s, [], 0) bs"
    by auto
  from index_fold_indexed[OF indexed_start, of "halfedges s" bs] geo_twin_next[OF g]
  have "indexed (halfedges s) bs st" by (simp add: st)
  then have "indexed (halfedges s) bs (halfedges s', fst (snd st), snd (snd st))"
    by (simp add: s')
  with b show ?thesis by blast
qed

text \<open>
  Claim C4. After a build of consistently linked polygons whose half-edges come without
  twins, node indices deduplicate by value equality. Let \<open>tw\<close> be the twin-bearing
  half-edges on the boundaries of the surviving regions, in the order visited, and
  \<open>seen\<close> their \<open>from()\<close> positions in first-seen order without repetition. Every edge of
  \<open>tw\<close> carries the place of its position in \<open>seen\<close> as node index (so the indices are the
  consecutive integers from 0, and the first-seen position keeps its index); two edges of
  \<open>tw\<close> with value-equal positions carry the same index; and the index of an edge is also
  the index of \<open>edge.twin.next\<close>.
\<close>

theorem node_indices:
  assumes build: "fromPolygons leftOn s polygons = Some (Inr s')"
      and wired: "\<forall>e. next (halfedges s (prev (halfedges s e))) = e"
      and fresh: "\<forall>e. twin (halfedges s e) = None"
  shows "\<exists>bs. boundaries_of (halfedges s') (polys s') (regions s') = Some bs \<and>
          (let h = halfedges s';
               tw = filter (\<lambda>e. twin (h e) \<noteq> None) bs;
               seen = first_seen (map (from_v h) tw)
           in (\<forall>e \<in> set tw. nodeIndex (h e) = int (index_of seen (from_v h e))) \<and>
              (\<forall>e \<in> set tw. \<forall>e' \<in> set tw.
                  equals (from_v h e) (from_v h e') \<longrightarrow> nodeIndex (h e) = nodeIndex (h e')) \<and>
              (\<forall>e \<in> set tw. \<forall>t. twin (h e) = Some t \<longrightarrow>
                  nodeIndex (h (next (h t))) = nodeIndex (h e)))"
proof -
  from build obtain L rs h w s2 s3 where
    lt: "link_twins (halfedges s) L = (h, w)" and
    br: "buildRegions leftOn ((clear s)\<lparr>halfedges := h, regions := rs\<rparr>) (sort_by descending w) = Some (Inr s2)" and
    bn: "buildNodeIndices s2 = Some s3" and
    bg: "buildGraph s3 = Some (Inr s')"
    by (rule fromPolygons_phases)
  from link_twins_geo[OF wired fresh, of L] lt have "geo h" by simp
  then have g2: "geo (halfedges s2)" using buildRegions_geo[OF _ br] by simp
  from buildNodeIndices_indexed[OF bn g2] obtain bs m n where
    b: "boundaries_of (halfedges s2) (polys s2) (regions s2) = Some bs" and
    ix: "indexed (halfedges s2) bs (halfedges s3, m, n)"
    by blast
  from buildNodeIndices_frame[OF bn] buildGraph_frame[OF bg]
  have sl: "same_links (halfedges s2) (halfedges s')" and
    same: "polys s' = polys s2" "regions s' = regions s2" and h': "halfedges s' = halfedges s3"
    by simp_all
  have fields: "twin (halfedges s' x) = twin (halfedges s2 x)"
    "next (halfedges s' x) = next (halfedges s2 x)" for x
    using sl by (simp_all add: same_links_def)
  have fr: "from_v (halfedges s') = from_v (halfedges s2)"
    using sl by (simp add: from_v_def fun_eq_iff same_links_def)
  have b': "boundaries_of (halfedges s') (polys s') (regions s') = Some bs"
    using boundaries_of_cong[OF same_links_cycle[OF sl]] b by (simp add: same)
  define tw where "tw = filter (\<lambda>e. twin (halfedges s2 e) \<noteq> None) bs"
  define seen where "seen = first_seen (map (from_v (halfedges s2)) tw)"
  note d = indexedD[OF ix, folded tw_def seen_def, folded h']
  have 1: "nodeIndex (halfedges s' e) = int (index_of seen (from_v (halfedges s2) e))" if "e \<in> set tw" for e
    using that d(4)[of e] by (simp add: tw_def)
  have 3: "nodeIndex (halfedges s' (next (halfedges s2 t))) = nodeIndex (halfedges s' e)"
    if "e \<in> set tw" "twin (halfedges s2 e) = Some t" for e t
    using that d(5)[of e t] 1[of e] by (simp add: tw_def)
  have 2: "nodeIndex (halfedges s' e) = nodeIndex (halfedges s' e')"
    if "e \<in> set tw" "e' \<in> set tw" "from_v (halfedges s2) e = from_v (halfedges s2) e'" for e e'
    using that 1[of e] 1[of e'] by simp
  show ?thesis
    apply (rule exI[of _ bs])
    apply (simp only: b' Let_def fields fr equals_iff)
    apply (fold tw_def)
    apply (fold seen_def)
    using 1 2 3 by blast
qed

lemma example_boundaries:
  "boundaries_of (halfedges example_built) (polys example_built) (regions example_built)
     = Some [2, 3, 0, 1, 4, 5, 6, 7, 8, 9]"
proof -
  have "regions example_built = [0, 1, 2]" by (simp add: example_built_def example_indexed_def)
  then show ?thesis
    by (simp only: boundaries_of.simps example_built_cycles option.case option.map append.simps)
qed

theorem node_indices_witness:
  "fromPolygons leftOn_xz example_mesh [0, 1, 2] = Some (Inr example_built) \<and>
   boundaries_of (halfedges example_built) (polys example_built) (regions example_built)
     = Some [2, 3, 0, 1, 4, 5, 6, 7, 8, 9] \<and>
   from_v (halfedges example_built) 2 = from_v (halfedges example_built) 7 \<and>
   nodeIndex (halfedges example_built 2) = nodeIndex (halfedges example_built 7) \<and>
   nodeIndex (halfedges example_built 2) = 0 \<and> nodeIndex (halfedges example_built 1) = 1 \<and>
   nodeIndex (halfedges example_built 4) = 2"
proof -
  let ?h = "halfedges example_built"
  have tw: "filter (\<lambda>e. twin (?h e) \<noteq> None) [2, 3, 0, 1, 4, 5, 6, 7, 8, 9] = [2, 1, 4, 7]"
    by (simp add: example_built_def example_indexed_def example_built_heap_def mk_heap_def he_def linked_def)
  have fr: "from_v ?h 2 = Vector3 1 0 1" "from_v ?h 7 = Vector3 1 0 1" "from_v ?h 1 = Vector3 0 0 1"
    "from_v ?h 4 = Vector3 1 0 0"
    by (simp_all add: from_v_def example_built_def example_indexed_def example_built_heap_def
        mk_heap_def he_def linked_def)
  have seen: "first_seen (map (from_v ?h) [2, 1, 4, 7]) = [Vector3 1 0 1, Vector3 0 0 1, Vector3 1 0 0]"
    by (simp add: first_seen_def fr del: One_nat_def)
  from node_indices[OF example_build example_mesh_wired example_mesh_fresh] obtain bs where
    b: "boundaries_of ?h (polys example_built) (regions example_built) = Some bs" and
    c: "let h = ?h; tw = filter (\<lambda>e. twin (h e) \<noteq> None) bs; seen = first_seen (map (from_v h) tw)
        in (\<forall>e \<in> set tw. nodeIndex (h e) = int (index_of seen (from_v h e))) \<and>
           (\<forall>e \<in> set tw. \<forall>e' \<in> set tw.
               equals (from_v h e) (from_v h e') \<longrightarrow> nodeIndex (h e) = nodeIndex (h e')) \<and>
           (\<forall>e \<in> set tw. \<forall>t. twin (h e) = Some t \<longrightarrow>
               nodeIndex (h (next (h t))) = nodeIndex (h e))"
    by blast
  from b example_boundaries have bs: "bs = [2, 3, 0, 1, 4, 5, 6, 7, 8, 9]" by simp
  note c' = c[unfolded bs Let_def tw seen]
  from c' have ix: "\<forall>e \<in> set [2, 1, 4, 7]. nodeIndex (?h e) =
      int (index_of [Vector3 1 0 1, Vector3 0 0 1, Vector3 1 0 0] (from_v ?h e))"
    by (rule conjunct1)
  from c' have eq: "\<forall>e \<in> set [2, 1, 4, 7]. \<forall>e' \<in> set [2, 1, 4, 7].
      equals (from_v ?h e) (from_v ?h e') \<longrightarrow> nodeIndex (?h e) = nodeIndex (?h e')"
    by (rule conjunct1[OF conjunct2])
  have m: "(2::nat) \<in> set [2, 1, 4, 7]" "(1::nat) \<in> set [2, 1, 4, 7]" "(4::nat) \<in> set [2, 1, 4, 7]"
     "(7::nat) \<in> set [2, 1, 4, 7]" by simp_all
  have a: "nodeIndex (?h 2) = 0" "nodeIndex (?h 1) = 1" "nodeIndex (?h 4) = 2"
    using bspec[OF ix m(1)] bspec[OF ix m(2)] bspec[OF ix m(3)]
    by (simp_all add: fr index_of_def del: One_nat_def)
  have "equals (from_v ?h 2) (from_v ?h 7)" by (simp add: fr)
  with bspec[OF bspec[OF eq m(1)] m(4)] have e: "nodeIndex (?h 2) = nodeIndex (?h 7)" by blast
  from a e fr example_build example_boundaries show ?thesis by simp
qed

section \<open>Properties of the queries\<close>

lemma walk_hd: "walk nxt start e = Some es \<Longrightarrow> \<exists>r. es = e # r"
  by (subst (asm) walk.simps) (auto split: if_splits simp: bind_eq_Some_conv)

lemma cycle_nonempty: "cycle h start = Some es \<Longrightarrow> \<exists>r. es = start # r"
  unfolding cycle_def by (rule walk_hd)

lemma below_None [simp]: "below d None"
  by (simp add: below_def)

lemma closest_edge_step_Some:
  "fst acc \<noteq> None \<Longrightarrow> fst (closest_edge_step h p acc e) \<noteq> None"
  by (cases acc) (auto simp: closest_edge_step_def Let_def)

lemma closest_edge_fold_Some:
  "fst acc \<noteq> None \<Longrightarrow> fst (foldl (closest_edge_step h p) acc es) \<noteq> None"
proof (induction es arbitrary: acc)
  case Nil
  then show ?case by simp
next
  case (Cons e es)
  from Cons.prems have "fst (closest_edge_step h p acc e) \<noteq> None"
    by (rule closest_edge_step_Some)
  then show ?case using Cons.IH by simp
qed

lemma closest_edge_Some: "es \<noteq> [] \<Longrightarrow> closest_edge h p es \<noteq> None"
proof (cases es)
  case Nil
  then show "es \<noteq> [] \<Longrightarrow> ?thesis" by simp
next
  case (Cons e rest)
  have "fst (closest_edge_step h p (None, None) e) \<noteq> None"
    by (simp add: closest_edge_step_def Let_def)
  then show ?thesis
    unfolding closest_edge_def Cons by (simp add: closest_edge_fold_Some)
qed

lemma closest_region_fold_mem:
  "fst (foldl (closest_region_step s p) acc rs) = Some r \<Longrightarrow> r \<in> set rs \<or> fst acc = Some r"
proof (induction rs arbitrary: acc)
  case Nil
  then show ?case by simp
next
  case (Cons x rs)
  from Cons.prems have "fst (foldl (closest_region_step s p) (closest_region_step s p acc x) rs) = Some r"
    by simp
  from Cons.IH[OF this] show ?case
    by (auto simp: closest_region_step_def Let_def split: if_splits)
qed

lemma closest_region_fold_Some:
  "fst acc \<noteq> None \<Longrightarrow> fst (foldl (closest_region_step s p) acc rs) \<noteq> None"
proof (induction rs arbitrary: acc)
  case Nil
  then show ?case by simp
next
  case (Cons x rs)
  from Cons.prems have "fst (closest_region_step s p acc x) \<noteq> None"
    by (cases acc) (auto simp: closest_region_step_def Let_def)
  then show ?case using Cons.IH by simp
qed

lemma getClosestRegion_mem: "getClosestRegion s p = Some r \<Longrightarrow> r \<in> set (regions s)"
  unfolding getClosestRegion_def by (drule closest_region_fold_mem) auto

lemma getClosestRegion_None: "getClosestRegion s p = None \<longleftrightarrow> regions s = []"
proof (cases "regions s")
  case Nil
  then show ?thesis by (simp add: getClosestRegion_def)
next
  case (Cons r rs)
  have "fst (closest_region_step s p (None, None) r) \<noteq> None"
    by (simp add: closest_region_step_def Let_def)
  then show ?thesis
    unfolding getClosestRegion_def Cons by (simp add: closest_region_fold_Some)
qed

lemma getRegionForPoint_mem: "getRegionForPoint c s p eps = Some r \<Longrightarrow> r \<in> set (regions s)"
  unfolding getRegionForPoint_def by (auto simp: find_Some_iff)

lemma resolve_mem: "resolve c s p = Some r \<Longrightarrow> r \<in> set (regions s)"
  unfolding resolve_def by (auto split: option.splits dest: getClosestRegion_mem getRegionForPoint_mem)

lemma resolve_None: "resolve c s p = None \<longleftrightarrow> regions s = []"
  unfolding resolve_def
  by (auto split: option.splits simp: getClosestRegion_None getRegionForPoint_def find_None_iff)

text \<open>
  Claim C10. On a NavMesh whose region set is empty (before any build, or after \<open>clear\<close>),
  both region look-ups and both closest-region fall-backs yield none, the two none
  results compare as the same region, and \<open>findPath(from, to)\<close> returns the two-element
  path \<open>[from, to]\<close>, neither an empty path nor an error.
\<close>

theorem findPath_no_regions:
  "regions s = [] \<Longrightarrow>
     getRegionForPoint contains s a None = None \<and> getRegionForPoint contains s b None = None \<and>
     getClosestRegion s a = None \<and> getClosestRegion s b = None \<and>
     findPath contains search s a b = Some (Inr [a, b])"
  by (simp add: findPath_def resolve_def getRegionForPoint_def getClosestRegion_def)

text \<open>
  Claim C5. When the region resolution of \<open>findPath\<close> (\<open>getRegionForPoint\<close>, with
  \<open>getClosestRegion\<close> as fall-back) yields the same region for \<open>p1\<close> and \<open>p2\<close>, the
  result is exactly \<open>[p1, p2]\<close>, whatever the graph search would answer.
\<close>

theorem findPath_same_region:
  "resolve contains s p1 = resolve contains s p2 \<Longrightarrow>
     findPath contains search s p1 p2 = Some (Inr [p1, p2])"
  by (simp add: findPath_def)

text \<open>
  Claim C6. For two points that resolve to distinct regions of a mesh whose region
  boundaries are closed cycles, if the graph search between the chosen source and target
  node indices finds no route, \<open>findPath\<close> returns the empty path and raises no error.
\<close>

theorem findPath_no_route:
  assumes distinct: "resolve contains s a \<noteq> resolve contains s b"
      and closed: "\<forall>r \<in> set (regions s). cycle (halfedges s) (edge (polys s r)) \<noteq> None"
      and nofound: "\<forall>source target.
              getClosestNodeIndexInRegion s a (resolve contains s a) (Some b) = Some (Inr source) \<longrightarrow>
              getClosestNodeIndexInRegion s b (resolve contains s b) (Some a) = Some (Inr target) \<longrightarrow>
              search (navgraph s) source target = None"
  shows "findPath contains search s a b = Some (Inr [])"
proof -
  from distinct have ne: "regions s \<noteq> []"
    using resolve_None[of contains s a] resolve_None[of contains s b] by auto
  then obtain ra rb where ra: "resolve contains s a = Some ra" and rb: "resolve contains s b = Some rb"
    using resolve_None[of contains s] by (metis not_Some_eq)
  from ra rb closed obtain esa esb where
    esa: "cycle (halfedges s) (edge (polys s ra)) = Some esa" and
    esb: "cycle (halfedges s) (edge (polys s rb)) = Some esb"
    using resolve_mem by fastforce
  obtain source where src: "getClosestNodeIndexInRegion s a (resolve contains s a) (Some b) = Some (Inr source)"
    by (simp add: getClosestNodeIndexInRegion_def ra esa)
  obtain target where tgt: "getClosestNodeIndexInRegion s b (resolve contains s b) (Some a) = Some (Inr target)"
    by (simp add: getClosestNodeIndexInRegion_def rb esb)
  from nofound src tgt have "search (navgraph s) source target = None" by blast
  with src tgt distinct show ?thesis
    by (simp add: findPath_def)
qed

text \<open>
  Claim C7. When \<open>endPosition\<close> lies inside some region, \<open>clampMovement\<close> returns that
  region and leaves \<open>clampPosition\<close> and the NavMesh state as they were.
\<close>

theorem clampMovement_inside:
  "getRegionForPoint contains s endPosition None = Some r \<Longrightarrow>
     clampMovement contains cpp at_seg s currentRegion startPosition endPosition clampPosition
       = Some (Inr (s, r, clampPosition))"
  by (simp add: clampMovement_def)

text \<open>
  Claim C9. In the off-mesh branch of \<open>clampMovement\<close> (the end position resolves to no
  region, the current region is given and its boundary is a closed cycle) there is a
  closest boundary edge, and the call fails with a TypeError on the unassigned segment
  exactly when that edge and its predecessor both have a twin: the branch is
  well-defined only when one of the two is a hull edge.
\<close>

theorem clampMovement_unassigned_segment:
  assumes off: "getRegionForPoint contains s endPosition None = None"
      and cyc: "cycle (halfedges s) (edge (polys s r)) = Some es"
  shows "\<exists>closestEdge. closest_edge (halfedges s) startPosition es = Some closestEdge \<and>
           (clampMovement contains cpp at_seg s (Some r) startPosition endPosition clampPosition
              = Some (Inl TypeError)
            \<longleftrightarrow> twin (halfedges s closestEdge) \<noteq> None \<and>
                twin (halfedges s (prev (halfedges s closestEdge))) \<noteq> None)"
proof -
  from cyc have "es \<noteq> []" using cycle_nonempty by fastforce
  then obtain ce where ce: "closest_edge (halfedges s) startPosition es = Some ce"
    using closest_edge_Some by fastforce
  have "clampMovement contains cpp at_seg s (Some r) startPosition endPosition clampPosition
              = Some (Inl TypeError)
            \<longleftrightarrow> twin (halfedges s ce) \<noteq> None \<and> twin (halfedges s (prev (halfedges s ce))) \<noteq> None"
    using off cyc ce
    by (auto simp: clampMovement_def choose_segment_def Let_def split: option.splits if_splits)
  with ce show ?thesis by blast
qed


lemmas ex_defs = example_built_def example_indexed_def example_graph_def example_built_heap_def example_built_polys_def mk_heap_def mk_polys_def he_def linked_def

lemma ex_cycles: "cycle example_built_heap 2 = Some [2,3,0,1]" "cycle example_built_heap 4 = Some [4,5,6]" "cycle example_built_heap 7 = Some [7,8,9]"
  by (simp_all add: cycle_def walk.simps example_built_heap_def mk_heap_def he_def linked_def)

theorem findPath_no_regions_witness:
  "regions (clear example_built) = [] \<and>
   findPath (\<lambda>s r p eps. True) (\<lambda>g source target. Some [0, 1]) (clear example_built)
     (Vector3 0 0 0) (Vector3 5 0 5) = Some (Inr [Vector3 0 0 0, Vector3 5 0 5])"
  using findPath_no_regions [of "clear example_built" "\<lambda>s r p eps. True" "Vector3 0 0 0" "Vector3 5 0 5" "\<lambda>g source target. Some [0, 1]"]
  by (simp add: clear_def)

theorem findPath_same_region_witness:
  "resolve (\<lambda>s r p eps. r = 1) example_built (Vector3 1 0 1) = Some 1 \<and>
   resolve (\<lambda>s r p eps. r = 1) example_built (Vector3 2 0 2) = Some 1 \<and>
   findPath (\<lambda>s r p eps. r = 1) (\<lambda>g source target. Some [0, 1]) example_built
     (Vector3 1 0 1) (Vector3 2 0 2) = Some (Inr [Vector3 1 0 1, Vector3 2 0 2])"
  using findPath_same_region [of "\<lambda>s r p eps. r = 1" example_built "Vector3 1 0 1" "Vector3 2 0 2" "\<lambda>g source target. Some [0, 1]"]
  by (simp add: resolve_def getRegionForPoint_def example_built_def example_indexed_def)

theorem findPath_no_route_witness:
  "resolve (\<lambda>s r p eps. if vx p \<le> 1 then r = 0 else r = 1) example_built (Vector3 (1/2) 0 (1/2)) = Some 0 \<and>
   resolve (\<lambda>s r p eps. if vx p \<le> 1 then r = 0 else r = 1) example_built (Vector3 (3/2) 0 1) = Some 1 \<and>
   findPath (\<lambda>s r p eps. if vx p \<le> 1 then r = 0 else r = 1) (\<lambda>g source target. None) example_built
     (Vector3 (1/2) 0 (1/2)) (Vector3 (3/2) 0 1) = Some (Inr [])"
proof -
  let ?c = "\<lambda>(s::navmesh) (r::nat) p (eps::real option). if vx p \<le> 1 then r = 0 else r = 1"
  have r0: "resolve ?c example_built (Vector3 (1/2) 0 (1/2)) = Some 0"
    by (simp add: resolve_def getRegionForPoint_def example_built_def example_indexed_def)
  have r1: "resolve ?c example_built (Vector3 (3/2) 0 1) = Some 1"
    by (simp add: resolve_def getRegionForPoint_def example_built_def example_indexed_def)
  have closed: "\<forall>r \<in> set (regions example_built).
      cycle (halfedges example_built) (edge (polys example_built r)) \<noteq> None"
    by (simp add: example_built_def example_indexed_def example_built_polys_def mk_polys_def ex_cycles)
  show ?thesis
    using findPath_no_route [of ?c example_built "Vector3 (1/2) 0 (1/2)" "Vector3 (3/2) 0 1"
        "\<lambda>g source target. None"] r0 r1 closed
    by simp
qed

theorem clampMovement_inside_witness:
  "getRegionForPoint (\<lambda>s r p eps. r = 1) example_built (Vector3 1 0 1) None = Some 1 \<and>
   clampMovement (\<lambda>s r p eps. r = 1) (\<lambda>seg p. 0) (\<lambda>seg t. fst seg) example_built (Some 0)
     (Vector3 1 0 0) (Vector3 1 0 1) (Vector3 7 7 7) = Some (Inr (example_built, 1, Vector3 7 7 7))"
  using clampMovement_inside [of "\<lambda>s r p eps. r = 1" example_built "Vector3 1 0 1" 1
      "\<lambda>seg p. 0" "\<lambda>seg t. fst seg" "Some 0" "Vector3 1 0 0" "Vector3 7 7 7"]
  by (simp add: getRegionForPoint_def example_built_def example_indexed_def)

lemma ex_closest: "closest_edge example_built_heap (Vector3 1 0 1) [2, 3, 0, 1] = Some 2"
  by (simp add: closest_edge_def closest_edge_step_def below_def squaredDistanceTo_def from_v_def
      example_built_heap_def mk_heap_def he_def linked_def Let_def)

theorem clampMovement_unassigned_segment_witness:
  "getRegionForPoint (\<lambda>s r p eps. False) example_built (Vector3 3 0 3) None = None \<and>
   cycle (halfedges example_built) (edge (polys example_built 0)) = Some [2, 3, 0, 1] \<and>
   closest_edge (halfedges example_built) (Vector3 1 0 1) [2, 3, 0, 1] = Some 2 \<and>
   twin (halfedges example_built 2) = Some 4 \<and>
   twin (halfedges example_built (prev (halfedges example_built 2))) = Some 7 \<and>
   clampMovement (\<lambda>s r p eps. False) (\<lambda>seg p. 0) (\<lambda>seg t. fst seg) example_built (Some 0)
     (Vector3 1 0 1) (Vector3 3 0 3) (Vector3 7 7 7) = Some (Inl TypeError)"
proof -
  have off: "getRegionForPoint (\<lambda>s r p eps. False) example_built (Vector3 3 0 3) None = None"
    by (simp add: getRegionForPoint_def find_None_iff)
  have cyc: "cycle (halfedges example_built) (edge (polys example_built 0)) = Some [2, 3, 0, 1]"
    by (simp add: example_built_def example_indexed_def example_built_polys_def mk_polys_def ex_cycles)
  have ce: "closest_edge (halfedges example_built) (Vector3 1 0 1) [2, 3, 0, 1] = Some 2"
    using ex_closest by (simp add: example_built_def example_indexed_def)
  have tw: "twin (halfedges example_built 2) = Some 4"
    "twin (halfedges example_built (prev (halfedges example_built 2))) = Some 7"
    by (simp_all add: ex_defs)
  from clampMovement_unassigned_segment [OF off cyc, of "Vector3 1 0 1" "\<lambda>seg p. 0" "\<lambda>seg t. fst seg" "Vector3 7 7 7"]
  show ?thesis using off cyc ce tw by simp
qed

end
